theory Spec2Isabelle
  imports Complex_Main "HOL-Library.Multiset"
begin

section \<open>Python values\<close>

subsection \<open>Strings\<close>

text \<open>
  A Python \<^verbatim>\<open>str\<close> is a sequence of Unicode code points, and so is the model's:
  a list of natural numbers. \<^verbatim>\<open>lit\<close> writes a literal of the source as its code points.
  \<^verbatim>\<open>str.isspace\<close> holds for the twenty-nine code points listed in \<^verbatim>\<open>whitespace\<close>
  (U+0009-000D, U+001C-0020, U+0085, U+00A0, U+1680, U+2000-200A, U+2028, U+2029,
  U+202F, U+205F, U+3000).
\<close>

type_synonym str = "nat list"

primrec lit :: "string \<Rightarrow> str" where
  "lit [] = []"
| "lit (c # cs) = of_char c # lit cs"

declare lit.simps [simp del]

abbreviation backtick :: nat where
  "backtick \<equiv> 96"

abbreviation newline :: nat where
  "newline \<equiv> 10"

definition whitespace :: "nat list" where
  "whitespace = [9, 10, 11, 12, 13, 28, 29, 30, 31, 32, 133, 160, 5760,
                 8192, 8193, 8194, 8195, 8196, 8197, 8198, 8199, 8200, 8201, 8202,
                 8232, 8233, 8239, 8287, 12288]"

definition isspace :: "nat \<Rightarrow> bool" where
  "isspace c = (c \<in> set whitespace)"

definition strip_chars :: "str \<Rightarrow> str \<Rightarrow> str" where
  \<comment> \<open>\<^verbatim>\<open>s.strip(chars)\<close>: leading and trailing characters of \<^verbatim>\<open>chars\<close> go\<close>
  "strip_chars s chars =
     rev (dropWhile (\<lambda>c. c \<in> set chars) (rev (dropWhile (\<lambda>c. c \<in> set chars) s)))"

definition strip :: "str \<Rightarrow> str" where
  \<comment> \<open>\<^verbatim>\<open>s.strip()\<close>\<close>
  "strip s = rev (dropWhile isspace (rev (dropWhile isspace s)))"

definition startswith :: "str \<Rightarrow> str \<Rightarrow> bool" where
  \<comment> \<open>\<^verbatim>\<open>s.startswith(p)\<close>\<close>
  "startswith s p = (take (length p) s = p)"

fun find_str :: "str \<Rightarrow> str \<Rightarrow> nat option" where
  \<comment> \<open>index of the leftmost occurrence of \<^verbatim>\<open>sep\<close> in the text\<close>
  "find_str sep [] = (if sep = [] then Some 0 else None)"
| "find_str sep (c # cs) =
     (if startswith (c # cs) sep then Some 0 else map_option Suc (find_str sep cs))"

lemma find_str_nonempty:
  "find_str sep s = Some i \<Longrightarrow> sep \<noteq> [] \<Longrightarrow> s \<noteq> []"
  by (cases s) auto

function py_split :: "str \<Rightarrow> str \<Rightarrow> str list" where
  \<comment> \<open>\<^verbatim>\<open>s.split(sep)\<close> for a non-empty separator: cut at every occurrence, left to right\<close>
  "py_split sep s =
     (if sep = [] then [s]
      else case find_str sep s of
             None \<Rightarrow> [s]
           | Some i \<Rightarrow> take i s # py_split sep (drop (i + length sep) s))"
  by pat_completeness auto
termination
  by (relation "measure (\<lambda>(sep, s). length s)") (auto dest: find_str_nonempty)

declare py_split.simps [simp del]

definition split_once :: "str \<Rightarrow> str \<Rightarrow> str list" where
  \<comment> \<open>\<^verbatim>\<open>s.split(sep, 1)\<close>: cut at the leftmost occurrence only\<close>
  "split_once sep s =
     (case find_str sep s of
        None \<Rightarrow> [s]
      | Some i \<Rightarrow> [take i s, drop (i + length sep) s])"

fun join :: "str \<Rightarrow> str list \<Rightarrow> str" where
  \<comment> \<open>\<^verbatim>\<open>sep.join(lines)\<close>\<close>
  "join sep [] = []"
| "join sep [l] = l"
| "join sep (l # ls) = l @ sep @ join sep ls"

definition replace_char :: "nat \<Rightarrow> nat \<Rightarrow> str \<Rightarrow> str" where
  \<comment> \<open>\<^verbatim>\<open>s.replace(a, b)\<close> for one-character \<^verbatim>\<open>a\<close> and \<^verbatim>\<open>b\<close>\<close>
  "replace_char a b s = map (\<lambda>c. if c = a then b else c) s"

definition latin_1 :: "str \<Rightarrow> bool" where
  \<comment> \<open>\<^verbatim>\<open>s.encode('latin-1')\<close> returns: no code point beyond U+00FF\<close>
  "latin_1 s = list_all (\<lambda>c. c < 256) s"

definition utf_8 :: "str \<Rightarrow> bool" where
  \<comment> \<open>\<^verbatim>\<open>s.encode('utf-8')\<close> returns: no surrogate code point (U+D800 to U+DFFF)\<close>
  "utf_8 s = list_all (\<lambda>c. \<not> (55296 \<le> c \<and> c \<le> 57343)) s"

subsection \<open>JSON values and exceptions\<close>

text \<open>
  What \<^verbatim>\<open>json.loads\<close> returns and what the handlers receive: Python's \<^verbatim>\<open>None\<close>,
  \<^verbatim>\<open>bool\<close>, \<^verbatim>\<open>int\<close>, \<^verbatim>\<open>float\<close>, \<^verbatim>\<open>str\<close>, \<^verbatim>\<open>list\<close> and \<^verbatim>\<open>dict\<close>. A dict is
  an association list in insertion order; a key is looked up with \<^const>\<open>map_of\<close>.
\<close>

datatype json =
    JNull
  | JBool bool
  | JInt int
  | JFloat real
  | JStr str
  | JArr "json list"
  | JObj "(str \<times> json) list"

type_synonym dict = "(str \<times> json) list"

datatype exn =
    JSONDecodeError
  | RecursionError
  | AttributeError
  | TypeError
  | UnicodeEncodeError
  | External str
  | OpenAI_API_error exn

text \<open>
  \<^const>\<open>RecursionError\<close> is what the JSON decoder raises on text nested deeper than the
  interpreter's recursion limit; it is not a \<^verbatim>\<open>JSONDecodeError\<close>. \<^const>\<open>External\<close> is any
  other exception raised inside a library call (the model provider, the image library),
  tagged with its text.
  \<^const>\<open>OpenAI_API_error\<close> is the \<^verbatim>\<open>Exception(f"OpenAI API error: {str(e)}")\<close> that
  \<^verbatim>\<open>api/upload.py\<close> raises around \<^verbatim>\<open>e\<close>.
\<close>

definition dict_get :: "dict \<Rightarrow> str \<Rightarrow> json" where
  \<comment> \<open>\<^verbatim>\<open>d.get(k)\<close>: \<^verbatim>\<open>None\<close> for a missing key\<close>
  "dict_get d k = (case map_of d k of None \<Rightarrow> JNull | Some v \<Rightarrow> v)"

definition dict_get_default :: "dict \<Rightarrow> str \<Rightarrow> json \<Rightarrow> json" where
  \<comment> \<open>\<^verbatim>\<open>d.get(k, default)\<close>: the default for a missing key only\<close>
  "dict_get_default d k dflt = (case map_of d k of None \<Rightarrow> dflt | Some v \<Rightarrow> v)"

fun truthy :: "json \<Rightarrow> bool" where
  "truthy JNull = False"
| "truthy (JBool b) = b"
| "truthy (JInt i) = (i \<noteq> 0)"
| "truthy (JFloat r) = (r \<noteq> 0)"
| "truthy (JStr s) = (s \<noteq> [])"
| "truthy (JArr xs) = (xs \<noteq> [])"
| "truthy (JObj kvs) = (kvs \<noteq> [])"

fun iterate :: "json \<Rightarrow> exn + json list" where
  \<comment> \<open>what \<^verbatim>\<open>for x in v\<close> runs over: the items of a list, the one-character strings of a
      string, the keys of a dict; anything else is not iterable\<close>
  "iterate (JArr xs) = Inr xs"
| "iterate (JStr s) = Inr (map (\<lambda>c. JStr [c]) s)"
| "iterate (JObj kvs) = Inr (map (\<lambda>kv. JStr (fst kv)) kvs)"
| "iterate v = Inl TypeError"

section \<open>External collaborators\<close>

text \<open>
  The libraries the repository calls are parameters of the model:
  \<^item> \<^verbatim>\<open>json_loads\<close>: \<^verbatim>\<open>json.loads\<close> on a text, with the exception it raises
    (\<^verbatim>\<open>json.JSONDecodeError\<close> on text that is not JSON, \<^verbatim>\<open>RecursionError\<close> on JSON
    nested too deep);
  \<^item> \<^verbatim>\<open>py_str\<close>: Python's \<^verbatim>\<open>str()\<close> of a value that is not a string;
  \<^item> \<^verbatim>\<open>unicode_lower\<close>: the lower-case text \<^verbatim>\<open>str.lower\<close> puts for the character at a
    position of a text, for a character beyond ASCII (the mapping has one rule that looks
    at the neighbours, so it takes the text);
  \<^item> \<^verbatim>\<open>parse\<close>, \<^verbatim>\<open>is_valid_number\<close>, \<^verbatim>\<open>format_number\<close>: the phone-number library,
    \<^verbatim>\<open>None\<close> standing for \<^verbatim>\<open>NumberParseException\<close> and whatever else \<^verbatim>\<open>parse\<close> raises
    on a value that is not a string;
  \<^item> \<^verbatim>\<open>chat_completions_create\<close>: the model provider's chat endpoint.
\<close>

datatype PhoneNumberFormat = E164 | INTERNATIONAL | NATIONAL | RFC3966

datatype call = Classification | Extraction

record 'p externals =
  json_loads :: "str \<Rightarrow> exn + json"
  py_str :: "json \<Rightarrow> str"
  unicode_lower :: "str \<Rightarrow> nat \<Rightarrow> str"
  parse :: "json \<Rightarrow> str \<Rightarrow> 'p option"
  is_valid_number :: "'p \<Rightarrow> bool"
  format_number :: "'p \<Rightarrow> PhoneNumberFormat \<Rightarrow> str"
  chat_completions_create :: "call \<Rightarrow> str \<Rightarrow> exn + str option"

definition fstr :: "'p externals \<Rightarrow> json \<Rightarrow> str" where
  \<comment> \<open>the text an f-string puts for \<^verbatim>\<open>{v}\<close>: a string as it is, \<^verbatim>\<open>str(v)\<close> otherwise\<close>
  "fstr ext v = (case v of JStr s \<Rightarrow> s | _ \<Rightarrow> py_str ext v)"

definition lower_at :: "'p externals \<Rightarrow> str \<Rightarrow> nat \<Rightarrow> str" where
  \<comment> \<open>what \<^verbatim>\<open>s.lower()\<close> puts for the character at position \<^verbatim>\<open>i\<close>: \<^verbatim>\<open>A-Z\<close> move by 32,
      the rest of ASCII stays\<close>
  "lower_at ext s i =
     (let c = s ! i
      in if 65 \<le> c \<and> c \<le> 90 then [c + 32]
         else if c < 128 then [c]
         else unicode_lower ext s i)"

definition lower :: "'p externals \<Rightarrow> str \<Rightarrow> str" where
  \<comment> \<open>\<^verbatim>\<open>s.lower()\<close>\<close>
  "lower ext s = concat (map (lower_at ext s) [0..<length s])"

section \<open>Phone normalizer\<close>

text \<open>
  \<^verbatim>\<open>normalize_phone_numbers\<close> is the same text in \<^verbatim>\<open>backend/app.py\<close> (lines 102-111) and
  \<^verbatim>\<open>api/generate-vcf.py\<close> (lines 5-14). The loop body appends to \<^verbatim>\<open>normalized\<close> or, on
  any exception of \<^verbatim>\<open>parse\<close>, passes.
\<close>

definition normalize_step :: "'p externals \<Rightarrow> str \<Rightarrow> json \<Rightarrow> str list \<Rightarrow> str list" where
  "normalize_step ext default_region num normalized =
     (case parse ext num default_region of
        None \<Rightarrow> normalized
      | Some parsed \<Rightarrow>
          if is_valid_number ext parsed
          then normalized @ [format_number ext parsed E164]
          else normalized)"

definition normalize_phone_numbers :: "'p externals \<Rightarrow> json \<Rightarrow> str \<Rightarrow> exn + str list" where
  "normalize_phone_numbers ext numbers default_region =
     (case iterate numbers of
        Inl e \<Rightarrow> Inl e
      | Inr nums \<Rightarrow> Inr (fold (normalize_step ext default_region) nums []))"

text \<open>
  The spec's words for the normalizer's result: an input survives when the library parses
  it and finds the parsed number valid; a survivor is written in E.164.
\<close>

definition survives :: "'p externals \<Rightarrow> str \<Rightarrow> str \<Rightarrow> bool" where
  "survives ext default_region num =
     (case parse ext (JStr num) default_region of
        None \<Rightarrow> False
      | Some parsed \<Rightarrow> is_valid_number ext parsed)"

definition e164 :: "'p externals \<Rightarrow> str \<Rightarrow> str \<Rightarrow> str" where
  "e164 ext default_region num =
     (case parse ext (JStr num) default_region of
        None \<Rightarrow> []
      | Some parsed \<Rightarrow> format_number ext parsed E164)"

section \<open>Contact card serializer\<close>

text \<open>
  \<^verbatim>\<open>create_vcf_content\<close> is the same text in \<^verbatim>\<open>backend/app.py\<close> (lines 114-136) and
  \<^verbatim>\<open>api/generate-vcf.py\<close> (lines 16-38). The variable \<^verbatim>\<open>lines\<close> is threaded through
  the statements; a statement that raises ends the function with the exception.
\<close>

definition and_then :: "exn + 'a \<Rightarrow> ('a \<Rightarrow> exn + 'b) \<Rightarrow> exn + 'b" where
  "and_then r f = (case r of Inl e \<Rightarrow> Inl e | Inr x \<Rightarrow> f x)"

definition append_name :: "str list \<Rightarrow> json \<Rightarrow> exn + str list" where
  \<comment> \<open>lines 116-121 of \<^verbatim>\<open>backend/app.py\<close>; \<^verbatim>\<open>split\<close> is a method of strings only\<close>
  "append_name lines name =
     (if truthy name then
        (case name of
           JStr s \<Rightarrow>
             (let parts = split_once (lit '' '') s;
                  first = parts ! 0;
                  last = (if length parts > 1 then parts ! 1 else [])
              in Inr (lines @ [(lit ''N:'') @ last @ (lit '';'') @ first @ (lit '';;;''), (lit ''FN:'') @ s]))
         | _ \<Rightarrow> Inl AttributeError)
      else Inr lines)"

definition append_field :: "'p externals \<Rightarrow> str \<Rightarrow> str list \<Rightarrow> json \<Rightarrow> str list" where
  \<comment> \<open>\<^verbatim>\<open>if v := contact_info.get(k): lines.append(f"TAG{v}")\<close>\<close>
  "append_field ext tag lines v = (if truthy v then lines @ [tag @ fstr ext v] else lines)"

definition vcf_lines :: "'p externals \<Rightarrow> dict \<Rightarrow> exn + str list" where
  \<comment> \<open>the list \<^verbatim>\<open>lines\<close> as it stands at the \<^verbatim>\<open>return\<close>\<close>
  "vcf_lines ext contact_info =
     and_then (append_name [(lit ''BEGIN:VCARD''), (lit ''VERSION:3.0'')] (dict_get contact_info (lit ''name'')))
      (\<lambda>lines.
     and_then (iterate (dict_get_default contact_info (lit ''titles'') (JArr [])))
      (\<lambda>titles.
        let lines = fold (\<lambda>title ls. ls @ [(lit ''TITLE:'') @ fstr ext title]) titles lines;
            lines = append_field ext (lit ''ORG:'') lines (dict_get contact_info (lit ''organization''))
        in
     and_then (normalize_phone_numbers ext
                 (dict_get_default contact_info (lit ''phone_numbers'') (JArr [])) (lit ''BD''))
      (\<lambda>phones.
        let lines = fold (\<lambda>phone ls. ls @ [(lit ''TEL;TYPE=CELL:'') @ phone]) phones lines;
            lines = append_field ext (lit ''EMAIL:'') lines (dict_get contact_info (lit ''email''));
            lines = append_field ext (lit ''ADR:;;'') lines (dict_get contact_info (lit ''address''));
            lines = append_field ext (lit ''URL:'') lines (dict_get contact_info (lit ''url''))
        in Inr (lines @ [lit ''END:VCARD'']))))"

definition create_vcf_content :: "'p externals \<Rightarrow> dict \<Rightarrow> exn + str" where
  "create_vcf_content ext contact_info =
     and_then (vcf_lines ext contact_info) (\<lambda>lines. Inr (join [newline] lines))"

subsection \<open>The shape of a contact record\<close>

text \<open>
  The data model's ContactRecord as a predicate on the dict the serializer receives: the
  five text fields are strings, \<^verbatim>\<open>titles\<close> and \<^verbatim>\<open>phone_numbers\<close> are lists of strings,
  and every field may be missing. \<^verbatim>\<open>null_ok\<close> says whether an explicit \<^verbatim>\<open>null\<close> is
  admitted for a field of that kind.
\<close>

fun is_JStr :: "json \<Rightarrow> bool" where
  "is_JStr (JStr s) = True"
| "is_JStr v = False"

fun text_shape :: "bool \<Rightarrow> json option \<Rightarrow> bool" where
  "text_shape null_ok None = True"
| "text_shape null_ok (Some JNull) = null_ok"
| "text_shape null_ok (Some (JStr s)) = True"
| "text_shape null_ok (Some v) = False"

fun list_shape :: "bool \<Rightarrow> json option \<Rightarrow> bool" where
  "list_shape null_ok None = True"
| "list_shape null_ok (Some JNull) = null_ok"
| "list_shape null_ok (Some (JArr xs)) = list_all is_JStr xs"
| "list_shape null_ok (Some v) = False"

definition record_shape :: "bool \<Rightarrow> bool \<Rightarrow> dict \<Rightarrow> bool" where
  "record_shape text_null_ok list_null_ok d =
     (text_shape text_null_ok (map_of d (lit ''name'')) \<and>
      list_shape list_null_ok (map_of d (lit ''titles'')) \<and>
      text_shape text_null_ok (map_of d (lit ''organization'')) \<and>
      list_shape list_null_ok (map_of d (lit ''phone_numbers'')) \<and>
      text_shape text_null_ok (map_of d (lit ''email'')) \<and>
      text_shape text_null_ok (map_of d (lit ''address'')) \<and>
      text_shape text_null_ok (map_of d (lit ''url'')))"

definition contact_record :: "dict \<Rightarrow> bool" where
  \<comment> \<open>a text field may be \<^verbatim>\<open>null\<close>; a list field, when present, is a list\<close>
  "contact_record d = record_shape True False d"

subsection \<open>The card of a typed record\<close>

text \<open>
  The serializer's algorithm in the words of the specification (section 4.2), on the text
  and the string lists a contact record carries: the header, the name split at its first
  space, one line per title, the organization, one line per surviving phone number, the
  e-mail, the address, the URL, the footer. \<^term>\<open>text_of\<close> reads a text field (empty when
  missing) and \<^term>\<open>strings_of\<close> a list field.
\<close>

definition text_of :: "json \<Rightarrow> str" where
  "text_of v = (case v of JStr s \<Rightarrow> s | _ \<Rightarrow> [])"

definition strings_of :: "json \<Rightarrow> str list" where
  "strings_of v = (case v of JArr xs \<Rightarrow> map text_of xs | _ \<Rightarrow> [])"

definition tagged :: "str \<Rightarrow> str \<Rightarrow> str list" where
  "tagged tag s = (if s = [] then [] else [tag @ s])"

definition name_part :: "str \<Rightarrow> str list" where
  "name_part n =
     (if n = [] then []
      else [(lit ''N:'') @ drop 1 (dropWhile (\<lambda>c. c \<noteq> 32) n) @ (lit '';'') @
              takeWhile (\<lambda>c. c \<noteq> 32) n @ (lit '';;;''),
            (lit ''FN:'') @ n])"

definition card_lines :: "'p externals \<Rightarrow> dict \<Rightarrow> str list" where
  "card_lines ext d =
     [(lit ''BEGIN:VCARD''), (lit ''VERSION:3.0'')]
     @ name_part (text_of (dict_get d (lit ''name'')))
     @ map (\<lambda>t. (lit ''TITLE:'') @ t) (strings_of (dict_get d (lit ''titles'')))
     @ tagged (lit ''ORG:'') (text_of (dict_get d (lit ''organization'')))
     @ map (\<lambda>p. (lit ''TEL;TYPE=CELL:'') @ e164 ext (lit ''BD'') p)
         (filter (survives ext (lit ''BD'')) (strings_of (dict_get d (lit ''phone_numbers''))))
     @ tagged (lit ''EMAIL:'') (text_of (dict_get d (lit ''email'')))
     @ tagged (lit ''ADR:;;'') (text_of (dict_get d (lit ''address'')))
     @ tagged (lit ''URL:'') (text_of (dict_get d (lit ''url'')))
     @ [lit ''END:VCARD'']"

text \<open>The tags of the lines each field of a record produces.\<close>

definition field_tags :: "(str \<times> str list) list" where
  "field_tags =
     [(lit ''name'', [(lit ''N:''), (lit ''FN:'')]),
      (lit ''titles'', [lit ''TITLE:'']),
      (lit ''organization'', [lit ''ORG:'']),
      (lit ''phone_numbers'', [lit ''TEL;TYPE=CELL:'']),
      (lit ''email'', [lit ''EMAIL:'']),
      (lit ''address'', [lit ''ADR:;;'']),
      (lit ''url'', [lit ''URL:''])]"

section \<open>The vCard endpoint\<close>

text \<open>
  \<^verbatim>\<open>generate_vcf\<close> of \<^verbatim>\<open>backend/app.py\<close> (lines 194-229) and \<^verbatim>\<open>handler.do_POST\<close> of
  \<^verbatim>\<open>api/generate-vcf.py\<close> (lines 41-74). A handler receives the outcome of reading
  the request body as JSON (\<^verbatim>\<open>await request.json()\<close>,
  \<^verbatim>\<open>json.loads(post_data.decode('utf-8'))\<close>): the value, or the exception raised.

  A body is \<^verbatim>\<open>json.dumps({"error": m})\<close> for a fixed text \<^verbatim>\<open>m\<close>, the same for the text of
  an exception, or the card. \<^verbatim>\<open>json.dumps\<close> writes ASCII only, so the first two always
  encode; the card is encoded as UTF-8, which fails on a surrogate code point. Both HTTP
  frameworks encode a header as Latin-1 when the handler sets it, and raise
  \<^verbatim>\<open>UnicodeEncodeError\<close> on a character beyond U+00FF.

  The model of a handler ends where the handler does: with the \<^verbatim>\<open>Response\<close> object it
  returns (FastAPI), or with the calls it has made on the request handler
  (\<^verbatim>\<open>http.server\<close>). The \<^verbatim>\<open>print\<close> calls of \<^verbatim>\<open>backend/app.py\<close> write to the log and are
  left out.
\<close>

datatype body = Json_error str | Json_exception exn | Vcard str

fun encodes :: "body \<Rightarrow> bool" where
  "encodes (Vcard vcf) = utf_8 vcf"
| "encodes b = True"

definition sanitized_filename :: "json \<Rightarrow> exn + str" where
  \<comment> \<open>\<^verbatim>\<open>data.get('name', 'contact').replace(' ', '_').replace('/', '_')\<close>\<close>
  "sanitized_filename name =
     (case name of
        JStr n \<Rightarrow> Inr (replace_char 47 95 (replace_char 32 95 n))
      | _ \<Rightarrow> Inl AttributeError)"

subsection \<open>The FastAPI variant\<close>

record response =
  status_code :: nat
  media_type :: str
  headers :: "(str \<times> str) list"
  content :: body

definition Response :: "body \<Rightarrow> str \<Rightarrow> nat \<Rightarrow> (str \<times> str) list \<Rightarrow> exn + response" where
  \<comment> \<open>the constructor \<^verbatim>\<open>Response(content, media_type, status_code, headers)\<close>: it encodes
      the body and the headers\<close>
  "Response c mt sc hs =
     (if encodes c \<and> list_all (\<lambda>(k, v). latin_1 k \<and> latin_1 v) hs
      then Inr \<lparr>status_code = sc, media_type = mt, headers = hs, content = c\<rparr>
      else Inl UnicodeEncodeError)"

definition generate_vcf_body :: "'p externals \<Rightarrow> exn + json \<Rightarrow> exn + response" where
  \<comment> \<open>the \<^verbatim>\<open>try\<close> block, lines 197-222\<close>
  "generate_vcf_body ext request_json =
     (case request_json of
        Inl e \<Rightarrow> Inl e
      | Inr (JObj data) \<Rightarrow>
          if \<not> truthy (dict_get data (lit ''name''))
          then Response (Json_error (lit ''Name is required to generate vCard''))
                 (lit ''application/json'') 400 []
          else
            and_then (create_vcf_content ext data) (\<lambda>vcf.
            and_then (sanitized_filename (dict_get_default data (lit ''name'') (JStr (lit ''contact''))))
              (\<lambda>filename.
                Response (Vcard vcf) (lit ''text/vcard'') 200
                  [(lit ''Content-Disposition'',
                    lit ''attachment; filename='' @ filename @ lit ''.vcf'')]))
      | Inr _ \<Rightarrow> Inl AttributeError)"

definition generate_vcf :: "'p externals \<Rightarrow> exn + json \<Rightarrow> response" where
  \<comment> \<open>\<^verbatim>\<open>except Exception as e\<close>: status 500 with the exception's text, whose body and
      (absent) headers always encode\<close>
  "generate_vcf ext request_json =
     (case generate_vcf_body ext request_json of
        Inl e \<Rightarrow> \<lparr>status_code = 500, media_type = lit ''application/json'', headers = [],
                  content = Json_exception e\<rparr>
      | Inr r \<Rightarrow> r)"

subsection \<open>The \<^verbatim>\<open>http.server\<close> variant\<close>

text \<open>
  \<^verbatim>\<open>do_POST\<close> answers through calls on the request handler, and the model returns the
  calls it made, in order. A call that raises is not in the list: the calls before it
  are, and those of the \<^verbatim>\<open>except\<close> block follow them.
\<close>

datatype wire =
    Send_response nat
  | Send_header str str
  | End_headers
  | Write body

definition send_headers :: "(str \<times> str) list \<Rightarrow> wire list" where
  "send_headers hs = map (\<lambda>(k, v). Send_header k v) hs"

definition json_headers :: "(str \<times> str) list" where
  "json_headers = [(lit ''Content-type'', lit ''application/json''),
                   (lit ''Access-Control-Allow-Origin'', lit ''*'')]"

definition do_POST_generate_vcf_body :: "'p externals \<Rightarrow> exn + json \<Rightarrow> exn option \<times> wire list" where
  \<comment> \<open>the \<^verbatim>\<open>try\<close> block, lines 43-67: the exception that ended it, if any, and the calls
      made\<close>
  "do_POST_generate_vcf_body ext request_json =
     (case request_json of
        Inl e \<Rightarrow> (Some e, [])
      | Inr (JObj data) \<Rightarrow>
          if \<not> truthy (dict_get data (lit ''name''))
          then (None, Send_response 400 # send_headers json_headers @
                      [End_headers, Write (Json_error (lit ''Name is required to generate vCard''))])
          else
            (case create_vcf_content ext data of
               Inl e \<Rightarrow> (Some e, [])
             | Inr vcf \<Rightarrow>
                 (case sanitized_filename (dict_get_default data (lit ''name'') (JStr (lit ''contact''))) of
                    Inl e \<Rightarrow> (Some e, [])
                  | Inr filename \<Rightarrow>
                      (let sent = Send_response 200 # send_headers
                             [(lit ''Content-type'', lit ''text/vcard''),
                              (lit ''Access-Control-Allow-Origin'', lit ''*'')];
                           disposition = lit ''attachment; filename='' @ filename @ lit ''.vcf''
                       in if \<not> latin_1 disposition then (Some UnicodeEncodeError, sent)
                          else
                            (let sent = sent @ [Send_header (lit ''Content-Disposition'') disposition,
                                                End_headers]
                             in if \<not> utf_8 vcf then (Some UnicodeEncodeError, sent)
                                else (None, sent @ [Write (Vcard vcf)])))))
      | Inr _ \<Rightarrow> (Some AttributeError, []))"

definition do_POST_generate_vcf :: "'p externals \<Rightarrow> exn + json \<Rightarrow> wire list" where
  \<comment> \<open>\<^verbatim>\<open>except Exception as e\<close>, lines 69-74\<close>
  "do_POST_generate_vcf ext request_json =
     (case do_POST_generate_vcf_body ext request_json of
        (None, sent) \<Rightarrow> sent
      | (Some e, sent) \<Rightarrow>
          sent @ Send_response 500 # send_headers json_headers @
                 [End_headers, Write (Json_exception e)])"

section \<open>The upload endpoint\<close>

subsection \<open>Extraction parser\<close>

definition unwrap_content :: "str \<Rightarrow> str" where
  \<comment> \<open>lines 95-97 of \<^verbatim>\<open>backend/app.py\<close>, 76-78 of \<^verbatim>\<open>api/upload.py\<close>: the text handed
      to \<^verbatim>\<open>json.loads\<close>\<close>
  "unwrap_content raw =
     (let content = strip raw
      in if startswith content [backtick, backtick, backtick]
         then strip (last (py_split (lit ''json'') (strip_chars content [backtick])))
         else content)"

text \<open>
  The external calls a request makes are logged in the state that is threaded through
  the handlers: a call is logged when it is made, whether it returns or raises. The
  provider answers a call with the text of its message (\<^verbatim>\<open>None\<close> when the message has
  no text, on which \<^verbatim>\<open>.strip()\<close> raises) or raises. The prompts are constants of each
  variant and belong to the provider's side of the model.
\<close>

definition extraction_body :: "'p externals \<Rightarrow> str \<Rightarrow> call list \<Rightarrow> (exn + json) \<times> call list" where
  "extraction_body ext base64_img calls =
     (let calls = calls @ [Extraction]
      in case chat_completions_create ext Extraction base64_img of
           Inl e \<Rightarrow> (Inl e, calls)
         | Inr None \<Rightarrow> (Inl AttributeError, calls)
         | Inr (Some raw) \<Rightarrow> (json_loads ext (unwrap_content raw), calls))"

definition extract_business_card_info :: "'p externals \<Rightarrow> str \<Rightarrow> call list \<Rightarrow> (exn + json) \<times> call list" where
  \<comment> \<open>\<^verbatim>\<open>backend/app.py\<close>, lines 45-99: no \<^verbatim>\<open>try\<close> around the body\<close>
  "extract_business_card_info ext base64_img calls = extraction_body ext base64_img calls"

definition placeholder :: json where
  "placeholder = JObj
     [(lit ''name'', JStr (lit ''Unable to parse name'')),
      (lit ''titles'', JArr []),
      (lit ''organization'', JStr (lit ''Unable to parse organization'')),
      (lit ''phone_numbers'', JArr []),
      (lit ''email'', JStr []),
      (lit ''address'', JStr []),
      (lit ''url'', JStr [])]"

definition extract_business_card_info_api :: "'p externals \<Rightarrow> str \<Rightarrow> call list \<Rightarrow> (exn + json) \<times> call list" where
  \<comment> \<open>\<^verbatim>\<open>api/upload.py\<close>, lines 21-94: the same body inside \<^verbatim>\<open>try\<close>, with
      \<^verbatim>\<open>except json.JSONDecodeError\<close> first and \<^verbatim>\<open>except Exception\<close> second\<close>
  "extract_business_card_info_api ext base64_img calls =
     (case extraction_body ext base64_img calls of
        (Inl JSONDecodeError, calls) \<Rightarrow> (Inr placeholder, calls)
      | (Inl e, calls) \<Rightarrow> (Inl (OpenAI_API_error e), calls)
      | (Inr data, calls) \<Rightarrow> (Inr data, calls))"

subsection \<open>Handlers\<close>

text \<open>
  The JSON a handler answers with: one of the fixed error objects, an error object
  around the text of an exception, or the extracted data.
  \<^item> \<^verbatim>\<open>Not_an_image\<close>: \<^verbatim>\<open>{"error": "Please upload a valid image file (JPG, PNG, etc.)"}\<close>
  \<^item> \<^verbatim>\<open>Not_a_business_card\<close>: \<^verbatim>\<open>{"error": "(U+274C) This doesn't seem like a business card.
    Please upload a clear business card photo."}\<close>
  \<^item> \<^verbatim>\<open>Error_processing_image e\<close>: \<^verbatim>\<open>{"error": f"Error processing image: {str(e)}"}\<close>
  \<^item> \<^verbatim>\<open>No_image_data\<close>: \<^verbatim>\<open>{"error": "No image data found"}\<close>
  \<^item> \<^verbatim>\<open>Invalid_image_format\<close>: \<^verbatim>\<open>{"error": "Invalid image format"}\<close>
  \<^item> \<^verbatim>\<open>Error_extracting e\<close>:
    \<^verbatim>\<open>{"error": f"Error extracting business card information: {str(e)}"}\<close>
  \<^item> \<^verbatim>\<open>Server_error e\<close>: \<^verbatim>\<open>{"error": f"Server error: {str(e)}"}\<close>, with status 500
\<close>

datatype reply =
    Not_an_image
  | Not_a_business_card
  | Error_processing_image exn
  | No_image_data
  | Invalid_image_format
  | Error_extracting exn
  | Server_error exn
  | Data json

text \<open>
  What the image library does with the upload is part of the request: for
  \<^verbatim>\<open>backend/app.py\<close> the declared content type and the result of \<^verbatim>\<open>encode_image(file)\<close>;
  for \<^verbatim>\<open>api/upload.py\<close> the bytes the multipart scan of lines 107-125 found (\<^verbatim>\<open>None\<close>
  when no part is an image), whether \<^verbatim>\<open>Image.open\<close> accepts them, and the result of
  \<^verbatim>\<open>encode_image_data(image_data)\<close>.
\<close>

record upload_file =
  content_type :: "str option"
  encode_image :: "exn + str"

record upload_request =
  image_data :: "str option"
  image_opens :: bool
  encode_image_data :: "exn + str"

definition is_card :: "'p externals \<Rightarrow> str \<Rightarrow> str" where
  \<comment> \<open>\<^verbatim>\<open>classification.choices[0].message.content.strip().lower()\<close>\<close>
  "is_card ext answer = lower ext (strip answer)"

definition upload_image_body :: "'p externals \<Rightarrow> upload_file \<Rightarrow> call list \<Rightarrow> (exn + reply) \<times> call list" where
  \<comment> \<open>\<^verbatim>\<open>backend/app.py\<close>, lines 147-189: the \<^verbatim>\<open>try\<close> block\<close>
  "upload_image_body ext file calls =
     (case content_type file of
        None \<Rightarrow> (Inl AttributeError, calls)
      | Some ct \<Rightarrow>
          if \<not> startswith ct (lit ''image/'') then (Inr Not_an_image, calls)
          else
            (case encode_image file of
               Inl e \<Rightarrow> (Inl e, calls)
             | Inr base64_img \<Rightarrow>
                 (let calls = calls @ [Classification]
                  in case chat_completions_create ext Classification base64_img of
                       Inl e \<Rightarrow> (Inl e, calls)
                     | Inr None \<Rightarrow> (Inl AttributeError, calls)
                     | Inr (Some answer) \<Rightarrow>
                         if \<not> startswith (is_card ext answer) (lit ''yes'')
                         then (Inr Not_a_business_card, calls)
                         else
                           (case extract_business_card_info ext base64_img calls of
                              (Inl e, calls) \<Rightarrow> (Inl e, calls)
                            | (Inr data, calls) \<Rightarrow> (Inr (Data data), calls)))))"

definition upload_image :: "'p externals \<Rightarrow> upload_file \<Rightarrow> call list \<Rightarrow> reply \<times> call list" where
  \<comment> \<open>\<^verbatim>\<open>except Exception as e: return {"error": f"Error processing image: {str(e)}"}\<close>\<close>
  "upload_image ext file calls =
     (case upload_image_body ext file calls of
        (Inl e, calls) \<Rightarrow> (Error_processing_image e, calls)
      | (Inr r, calls) \<Rightarrow> (r, calls))"

datatype classified = Rejected | Continue

definition classify_block :: "'p externals \<Rightarrow> str \<Rightarrow> call list \<Rightarrow> classified \<times> call list" where
  \<comment> \<open>\<^verbatim>\<open>api/upload.py\<close>, lines 141-177: the answer is checked inside \<^verbatim>\<open>try\<close>, and
      \<^verbatim>\<open>except Exception\<close> prints and goes on\<close>
  "classify_block ext base64_img calls =
     (let calls = calls @ [Classification]
      in case chat_completions_create ext Classification base64_img of
           Inl e \<Rightarrow> (Continue, calls)
         | Inr None \<Rightarrow> (Continue, calls)
         | Inr (Some answer) \<Rightarrow>
             if \<not> startswith (is_card ext answer) (lit ''yes'') then (Rejected, calls)
             else (Continue, calls))"

definition do_POST_upload :: "'p externals \<Rightarrow> upload_request \<Rightarrow> call list \<Rightarrow> reply \<times> call list" where
  \<comment> \<open>\<^verbatim>\<open>api/upload.py\<close>, lines 127-196\<close>
  "do_POST_upload ext req calls =
     (case image_data req of
        None \<Rightarrow> (No_image_data, calls)
      | Some bytes \<Rightarrow>
          if bytes = [] then (No_image_data, calls)
          else if \<not> image_opens req then (Invalid_image_format, calls)
          else
            (case encode_image_data req of
               Inl e \<Rightarrow> (Server_error e, calls)
             | Inr base64_img \<Rightarrow>
                 (case classify_block ext base64_img calls of
                    (Rejected, calls) \<Rightarrow> (Not_a_business_card, calls)
                  | (Continue, calls) \<Rightarrow>
                      (case extract_business_card_info_api ext base64_img calls of
                         (Inl e, calls) \<Rightarrow> (Error_extracting e, calls)
                       | (Inr data, calls) \<Rightarrow> (Data data, calls)))))"

section \<open>Notions of the specification\<close>

text \<open>
  The specification speaks of the lines of the output, of text that contains a tag, and
  of stripping every backtick. These are its notions, written down to compare the code
  with them; the code does not use them.

  The lines of a text are the pieces between its newline characters,
  \<^term>\<open>py_split [newline]\<close>. \<^verbatim>\<open>card_values\<close> lists the texts a contact record puts on
  its card.
\<close>

definition contains :: "str \<Rightarrow> str \<Rightarrow> bool" where
  \<comment> \<open>\<^verbatim>\<open>sep in s\<close>\<close>
  "contains sep s = (find_str sep s \<noteq> None)"

definition card_values :: "'p externals \<Rightarrow> dict \<Rightarrow> str list" where
  "card_values ext d =
     text_of (dict_get d (lit ''name''))
     # strings_of (dict_get d (lit ''titles''))
     @ text_of (dict_get d (lit ''organization''))
     # map (e164 ext (lit ''BD''))
         (filter (survives ext (lit ''BD'')) (strings_of (dict_get d (lit ''phone_numbers''))))
     @ [text_of (dict_get d (lit ''email'')),
        text_of (dict_get d (lit ''address'')),
        text_of (dict_get d (lit ''url''))]"

definition spec_unwrap :: "str \<Rightarrow> str" where
  \<comment> \<open>section 4.3 in its own words: trim; if the text begins with a code fence, strip all
      backtick characters, discard everything up to and including the last \<^verbatim>\<open>json\<close> if
      there is one, and trim again\<close>
  "spec_unwrap raw =
     (let t = strip raw
      in if startswith t [backtick, backtick, backtick]
         then (let u = filter (\<lambda>c. c \<noteq> backtick) t
               in if contains (lit ''json'') u
                  then strip (last (py_split (lit ''json'') u))
                  else strip u)
         else t)"

definition fenced :: "str \<Rightarrow> str" where
  \<comment> \<open>a text wrapped in triple backticks with a leading \<^verbatim>\<open>json\<close> tag\<close>
  "fenced s = [backtick, backtick, backtick] @ lit ''json'' @ [newline] @ s @ [newline] @
              [backtick, backtick, backtick]"

section \<open>A concrete environment\<close>

text \<open>
  To run the model on concrete requests the libraries need values. The stand-ins below
  agree with the libraries on the inputs the examples use: the decoder knows three JSON
  texts and raises \<^verbatim>\<open>JSONDecodeError\<close> on the rest (the examples hand it only those
  three or text that is not JSON); no character beyond ASCII is changed by lower-casing
  (the examples have none); a phone number is its digits with the country code, parsed
  from \<^verbatim>\<open>+digits\<close> or, for region BD, from a national number with its leading zero,
  and valid when it has the length and prefix of a Bangladeshi mobile number; the
  provider says yes and answers the extraction with a one-field object.
\<close>

definition sample_json_loads :: "str \<Rightarrow> exn + json" where
  \<open>sample_json_loads text =
     (case map_of
        [(lit ''{"name":"A"}'', JObj [(lit ''name'', JStr (lit ''A''))]),
         (lit ''{"name":"json"}'', JObj [(lit ''name'', JStr (lit ''json''))]),
         (lit ''{"name":"Jane Roe","phone_numbers":["01812345678"]}'',
            JObj [(lit ''name'', JStr (lit ''Jane Roe'')),
                  (lit ''phone_numbers'', JArr [JStr (lit ''01812345678'')])])] text of
        None \<Rightarrow> Inl JSONDecodeError
      | Some v \<Rightarrow> Inr v)\<close>

definition sample_py_str :: "json \<Rightarrow> str" where
  "sample_py_str v =
     (case v of JNull \<Rightarrow> lit ''None'' | JBool True \<Rightarrow> lit ''True''
      | JBool False \<Rightarrow> lit ''False'' | _ \<Rightarrow> [])"

definition is_digit :: "nat \<Rightarrow> bool" where
  "is_digit c = (48 \<le> c \<and> c \<le> 57)"

definition sample_parse :: "json \<Rightarrow> str \<Rightarrow> str option" where
  "sample_parse num region =
     (case num of
        JStr (c # ds) \<Rightarrow>
          if ds = [] \<or> \<not> list_all is_digit ds then None
          else if c = 43 then Some ds
          else if c = 48 \<and> region = lit ''BD'' then Some (lit ''880'' @ ds)
          else None
      | _ \<Rightarrow> None)"

definition sample_is_valid_number :: "str \<Rightarrow> bool" where
  "sample_is_valid_number p = (length p = 13 \<and> take 4 p = lit ''8801'')"

definition sample_format_number :: "str \<Rightarrow> PhoneNumberFormat \<Rightarrow> str" where
  "sample_format_number p fmt = 43 # p"

definition sample_create :: "call \<Rightarrow> str \<Rightarrow> exn + str option" where
  \<open>sample_create c base64_img =
     (case c of
        Classification \<Rightarrow> Inr (Some (lit ''Yes''))
      | Extraction \<Rightarrow> Inr (Some (lit ''{"name":"A"}'')))\<close>

definition sample_externals :: "str externals" where
  "sample_externals =
     \<lparr>json_loads = sample_json_loads,
      py_str = sample_py_str,
      unicode_lower = (\<lambda>s i. [s ! i]),
      parse = sample_parse,
      is_valid_number = sample_is_valid_number,
      format_number = sample_format_number,
      chat_completions_create = sample_create\<rparr>"

text \<open>The sample environment with other answers of the provider.\<close>

definition answering :: "str \<Rightarrow> str \<Rightarrow> str externals" where
  "answering answer raw =
     sample_externals\<lparr>chat_completions_create :=
       (\<lambda>c base64_img. case c of Classification \<Rightarrow> Inr (Some answer) | Extraction \<Rightarrow> Inr (Some raw))\<rparr>"

definition failing_classification :: "exn \<Rightarrow> str \<Rightarrow> str externals" where
  "failing_classification e raw =
     sample_externals\<lparr>chat_completions_create :=
       (\<lambda>c base64_img. case c of Classification \<Rightarrow> Inl e | Extraction \<Rightarrow> Inr (Some raw))\<rparr>"

definition sample_file :: upload_file where
  "sample_file = \<lparr>content_type = Some (lit ''image/png''), encode_image = Inr (lit ''aGVsbG8='')\<rparr>"

definition sample_request :: upload_request where
  "sample_request =
     \<lparr>image_data = Some (lit ''PNG''), image_opens = True, encode_image_data = Inr (lit ''aGVsbG8='')\<rparr>"

section \<open>Properties of the phone normalizer\<close>

lemma normalize_step_JStr:
  "normalize_step ext r (JStr n) acc =
     acc @ (if survives ext r n then [e164 ext r n] else [])"
  by (simp add: normalize_step_def survives_def e164_def split: option.split)

lemma fold_normalize_step:
  "fold (normalize_step ext r) (map JStr nums) acc =
     acc @ map (e164 ext r) (filter (survives ext r) nums)"
  by (induction nums arbitrary: acc) (simp_all add: normalize_step_JStr)

text \<open>
  C6. For every list of input strings and default region, the phone normalizer returns
  (no exception) the inputs that parse and pass the validity check, in their input order,
  each formatted in E.164; the others are dropped, so the output is at most as long as
  the input.
\<close>

theorem normalize_phone_numbers_sublist:
  "normalize_phone_numbers ext (JArr (map JStr nums)) region =
     Inr (map (e164 ext region) (filter (survives ext region) nums))
   \<and> length (map (e164 ext region) (filter (survives ext region) nums)) \<le> length nums"
  by (simp add: normalize_phone_numbers_def fold_normalize_step)

section \<open>Properties of the serializer\<close>

lemma lit_space: "lit '' '' = [32]"
  by (simp add: lit.simps)

lemma startswith_Nil [simp]: "startswith s [] = True"
  by (simp add: startswith_def)

lemma startswith_Cons [simp]:
  "startswith (a # s) (b # p) = (a = b \<and> startswith s p)"
  by (auto simp: startswith_def)

lemma startswith_empty [simp]: "startswith [] (b # p) = False"
  by (simp add: startswith_def)

lemma find_str_char:
  "find_str [c] s =
     (if c \<in> set s then Some (length (takeWhile (\<lambda>x. x \<noteq> c) s)) else None)"
  by (induction s) auto

lemma takeWhile_absent: "c \<notin> set s \<Longrightarrow> takeWhile (\<lambda>x. x \<noteq> c) s = s"
  by (induction s) auto

lemma dropWhile_absent: "c \<notin> set s \<Longrightarrow> dropWhile (\<lambda>x. x \<noteq> c) s = []"
  by (induction s) auto

lemma split_once_char:
  "split_once [c] s =
     (if c \<in> set s
      then [takeWhile (\<lambda>x. x \<noteq> c) s, drop 1 (dropWhile (\<lambda>x. x \<noteq> c) s)]
      else [s])"
proof -
  let ?n = "length (takeWhile (\<lambda>x. x \<noteq> c) s)"
  have "take ?n s = takeWhile (\<lambda>x. x \<noteq> c) s"
    by (rule takeWhile_eq_take [symmetric])
  moreover have "drop (?n + length [c]) s = drop 1 (dropWhile (\<lambda>x. x \<noteq> c) s)"
    by (simp add: dropWhile_eq_drop add.commute del: drop_Suc_Cons)
  ultimately show ?thesis
    by (simp only: split_once_def find_str_char split: if_split) simp
qed

lemma fold_append_each: "fold (\<lambda>x ls. ls @ [f x]) xs acc = acc @ map f xs"
  by (induction xs arbitrary: acc) simp_all

lemma text_shape_cases:
  "text_shape True (map_of d k) \<Longrightarrow> dict_get d k = JNull \<or> (\<exists>s. dict_get d k = JStr s)"
  by (cases "(True, map_of d k)" rule: text_shape.cases) (auto simp: dict_get_def)

lemma list_all_is_JStr: "list_all is_JStr xs \<Longrightarrow> map (JStr \<circ> text_of) xs = xs"
proof (induction xs)
  case Nil
  then show ?case by simp
next
  case (Cons x xs)
  then show ?case by (cases x) (simp_all add: text_of_def)
qed

lemma list_shape_cases:
  "list_shape False (map_of d k) \<Longrightarrow>
     dict_get_default d k (JArr []) = JArr (map JStr (strings_of (dict_get d k)))"
  by (cases "(False, map_of d k)" rule: list_shape.cases)
     (auto simp: dict_get_def dict_get_default_def strings_of_def list_all_is_JStr)

lemma append_name_text:
  "v = JNull \<or> (\<exists>s. v = JStr s) \<Longrightarrow>
     append_name lines v = Inr (lines @ name_part (text_of v))"
  by (auto simp: append_name_def name_part_def text_of_def lit_space split_once_char Let_def
        takeWhile_absent dropWhile_absent)

lemma append_field_text:
  "v = JNull \<or> (\<exists>s. v = JStr s) \<Longrightarrow>
     append_field ext tag lines v = lines @ tagged tag (text_of v)"
  by (auto simp: append_field_def tagged_def text_of_def fstr_def)

lemma contact_record_fields:
  assumes "contact_record d"
  shows "text_shape True (map_of d (lit ''name''))"
    and "list_shape False (map_of d (lit ''titles''))"
    and "text_shape True (map_of d (lit ''organization''))"
    and "list_shape False (map_of d (lit ''phone_numbers''))"
    and "text_shape True (map_of d (lit ''email''))"
    and "text_shape True (map_of d (lit ''address''))"
    and "text_shape True (map_of d (lit ''url''))"
  using assms by (simp_all add: contact_record_def record_shape_def)

lemma vcf_lines_card_lines:
  assumes "contact_record d"
  shows "vcf_lines ext d = Inr (card_lines ext d)"
proof -
  note f = contact_record_fields [OF assms]
  show ?thesis
    unfolding vcf_lines_def card_lines_def
    by (simp add: append_name_text [OF text_shape_cases [OF f(1)]]
          append_field_text [OF text_shape_cases [OF f(3)]]
          append_field_text [OF text_shape_cases [OF f(5)]]
          append_field_text [OF text_shape_cases [OF f(6)]]
          append_field_text [OF text_shape_cases [OF f(7)]]
          list_shape_cases [OF f(2)] list_shape_cases [OF f(4)]
          and_then_def fold_append_each normalize_phone_numbers_def fold_normalize_step
          fstr_def comp_def)
qed

lemma vcf_lines_map_of:
  "map_of d' = map_of d \<Longrightarrow> vcf_lines ext d' = vcf_lines ext d"
  by (simp add: vcf_lines_def dict_get_def dict_get_default_def)

lemma map_of_reordered:
  assumes "distinct (map fst d)" and "mset d' = mset d"
  shows "map_of d' = map_of d"
proof -
  from assms(2) have "mset (map fst d') = mset (map fst d)" by simp
  with assms(1) have "distinct (map fst d')"
    by (metis mset_eq_imp_distinct_iff)
  moreover from assms(2) have "set d' = set d" by (rule mset_eq_setD)
  ultimately show ?thesis using assms(1) by (simp add: map_of_inject_set)
qed

lemma create_vcf_content_card_lines:
  "contact_record d \<Longrightarrow> create_vcf_content ext d = Inr (join [newline] (card_lines ext d))"
  by (simp add: create_vcf_content_def vcf_lines_card_lines and_then_def)

lemma falsy_text:
  "text_shape True (map_of d k) \<Longrightarrow> \<not> truthy (dict_get d k) \<Longrightarrow> text_of (dict_get d k) = []"
  by (cases "(True, map_of d k)" rule: text_shape.cases) (auto simp: dict_get_def text_of_def)

lemma falsy_list:
  "list_shape False (map_of d k) \<Longrightarrow> \<not> truthy (dict_get d k) \<Longrightarrow> strings_of (dict_get d k) = []"
  by (cases "(False, map_of d k)" rule: list_shape.cases) (auto simp: dict_get_def strings_of_def)

lemma startswith_take2:
  assumes "startswith l p" and "2 \<le> length p"
  shows "take 2 l = take 2 p"
proof -
  from assms(1) have "take 2 p = take 2 (take (length p) l)"
    by (simp add: startswith_def)
  also from assms(2) have "\<dots> = take 2 l"
    by (simp add: min_def)
  finally show ?thesis by simp
qed

lemma name_part_member:
  "l \<in> set (name_part n) \<Longrightarrow> n \<noteq> [] \<and> (take 2 l = lit ''N:'' \<or> take 2 l = lit ''FN'')"
  by (cases "n = []") (auto simp: name_part_def lit.simps)

lemma tagged_member:
  "l \<in> set (tagged tag s) \<Longrightarrow> s \<noteq> [] \<and> l = tag @ s"
  by (cases "s = []") (simp_all add: tagged_def)

lemma card_lines_cases:
  assumes "l \<in> set (card_lines ext d)"
  obtains (header) "l = lit ''BEGIN:VCARD'' \<or> l = lit ''VERSION:3.0'' \<or> l = lit ''END:VCARD''"
    | (name) "l \<in> set (name_part (text_of (dict_get d (lit ''name''))))"
    | (title) t where "t \<in> set (strings_of (dict_get d (lit ''titles'')))" "l = lit ''TITLE:'' @ t"
    | (org) "l \<in> set (tagged (lit ''ORG:'') (text_of (dict_get d (lit ''organization''))))"
    | (tel) p where "p \<in> set (strings_of (dict_get d (lit ''phone_numbers'')))"
        "survives ext (lit ''BD'') p" "l = lit ''TEL;TYPE=CELL:'' @ e164 ext (lit ''BD'') p"
    | (email) "l \<in> set (tagged (lit ''EMAIL:'') (text_of (dict_get d (lit ''email''))))"
    | (adr) "l \<in> set (tagged (lit ''ADR:;;'') (text_of (dict_get d (lit ''address''))))"
    | (url) "l \<in> set (tagged (lit ''URL:'') (text_of (dict_get d (lit ''url''))))"
  using assms unfolding card_lines_def set_append Un_iff by fastforce

lemma card_lines_member:
  assumes "l \<in> set (card_lines ext d)"
  shows "take 2 l = lit ''BE'' \<or> take 2 l = lit ''VE'' \<or> take 2 l = lit ''EN''
     \<or> (text_of (dict_get d (lit ''name'')) \<noteq> [] \<and> (take 2 l = lit ''N:'' \<or> take 2 l = lit ''FN''))
     \<or> (strings_of (dict_get d (lit ''titles'')) \<noteq> [] \<and> take 2 l = lit ''TI'')
     \<or> (text_of (dict_get d (lit ''organization'')) \<noteq> [] \<and> take 2 l = lit ''OR'')
     \<or> (strings_of (dict_get d (lit ''phone_numbers'')) \<noteq> [] \<and> take 2 l = lit ''TE'')
     \<or> (text_of (dict_get d (lit ''email'')) \<noteq> [] \<and> take 2 l = lit ''EM'')
     \<or> (text_of (dict_get d (lit ''address'')) \<noteq> [] \<and> take 2 l = lit ''AD'')
     \<or> (text_of (dict_get d (lit ''url'')) \<noteq> [] \<and> take 2 l = lit ''UR'')"
  using assms
proof (cases rule: card_lines_cases)
  case header
  then have "take 2 l = lit ''BE'' \<or> take 2 l = lit ''VE'' \<or> take 2 l = lit ''EN''"
    by (auto simp: lit.simps)
  then show ?thesis by blast
next
  case name
  from name_part_member [OF this] show ?thesis by blast
next
  case (title t)
  then have "strings_of (dict_get d (lit ''titles'')) \<noteq> [] \<and> take 2 l = lit ''TI''"
    by (auto simp: lit.simps)
  then show ?thesis by blast
next
  case org
  from tagged_member [OF this]
  have "text_of (dict_get d (lit ''organization'')) \<noteq> [] \<and> take 2 l = lit ''OR''"
    by (simp add: lit.simps)
  then show ?thesis by blast
next
  case (tel p)
  then have "strings_of (dict_get d (lit ''phone_numbers'')) \<noteq> [] \<and> take 2 l = lit ''TE''"
    by (auto simp: lit.simps)
  then show ?thesis by blast
next
  case email
  from tagged_member [OF this]
  have "text_of (dict_get d (lit ''email'')) \<noteq> [] \<and> take 2 l = lit ''EM''"
    by (simp add: lit.simps)
  then show ?thesis by blast
next
  case adr
  from tagged_member [OF this]
  have "text_of (dict_get d (lit ''address'')) \<noteq> [] \<and> take 2 l = lit ''AD''"
    by (simp add: lit.simps)
  then show ?thesis by blast
next
  case url
  from tagged_member [OF this]
  have "text_of (dict_get d (lit ''url'')) \<noteq> [] \<and> take 2 l = lit ''UR''"
    by (simp add: lit.simps)
  then show ?thesis by blast
qed

lemma two_letters:
  "take 2 (lit ''N:'') = [78, 58]" "take 2 (lit ''FN:'') = [70, 78]"
  "take 2 (lit ''TITLE:'') = [84, 73]" "take 2 (lit ''ORG:'') = [79, 82]"
  "take 2 (lit ''TEL;TYPE=CELL:'') = [84, 69]" "take 2 (lit ''EMAIL:'') = [69, 77]"
  "take 2 (lit ''ADR:;;'') = [65, 68]" "take 2 (lit ''URL:'') = [85, 82]"
  "lit ''BE'' = [66, 69]" "lit ''VE'' = [86, 69]" "lit ''EN'' = [69, 78]"
  "lit ''N:'' = [78, 58]" "lit ''FN'' = [70, 78]" "lit ''TI'' = [84, 73]"
  "lit ''OR'' = [79, 82]" "lit ''TE'' = [84, 69]" "lit ''EM'' = [69, 77]"
  "lit ''AD'' = [65, 68]" "lit ''UR'' = [85, 82]"
  by (simp_all add: lit.simps)

lemma tag_lengths:
  "2 \<le> length (lit ''N:'')" "2 \<le> length (lit ''FN:'')" "2 \<le> length (lit ''TITLE:'')"
  "2 \<le> length (lit ''ORG:'')" "2 \<le> length (lit ''TEL;TYPE=CELL:'')"
  "2 \<le> length (lit ''EMAIL:'')" "2 \<le> length (lit ''ADR:;;'')" "2 \<le> length (lit ''URL:'')"
  by (simp_all add: lit.simps)

lemma empty_field_no_line:
  assumes rec: "contact_record d" and l: "l \<in> set (card_lines ext d)"
  shows "\<not> truthy (dict_get d (lit ''name'')) \<Longrightarrow>
           \<not> startswith l (lit ''N:'') \<and> \<not> startswith l (lit ''FN:'')"
    and "\<not> truthy (dict_get d (lit ''titles'')) \<Longrightarrow> \<not> startswith l (lit ''TITLE:'')"
    and "\<not> truthy (dict_get d (lit ''organization'')) \<Longrightarrow> \<not> startswith l (lit ''ORG:'')"
    and "\<not> truthy (dict_get d (lit ''phone_numbers'')) \<Longrightarrow> \<not> startswith l (lit ''TEL;TYPE=CELL:'')"
    and "\<not> truthy (dict_get d (lit ''email'')) \<Longrightarrow> \<not> startswith l (lit ''EMAIL:'')"
    and "\<not> truthy (dict_get d (lit ''address'')) \<Longrightarrow> \<not> startswith l (lit ''ADR:;;'')"
    and "\<not> truthy (dict_get d (lit ''url'')) \<Longrightarrow> \<not> startswith l (lit ''URL:'')"
proof -
  note f = contact_record_fields [OF rec]
  note m = card_lines_member [OF l]
  note t = startswith_take2 [of l]
  show "\<not> truthy (dict_get d (lit ''name'')) \<Longrightarrow>
           \<not> startswith l (lit ''N:'') \<and> \<not> startswith l (lit ''FN:'')"
    using m falsy_text [OF f(1)] t [OF _ tag_lengths(1)] t [OF _ tag_lengths(2)] by (auto simp: two_letters)
  show "\<not> truthy (dict_get d (lit ''titles'')) \<Longrightarrow> \<not> startswith l (lit ''TITLE:'')"
    using m falsy_list [OF f(2)] t [OF _ tag_lengths(3)] by (auto simp: two_letters)
  show "\<not> truthy (dict_get d (lit ''organization'')) \<Longrightarrow> \<not> startswith l (lit ''ORG:'')"
    using m falsy_text [OF f(3)] t [OF _ tag_lengths(4)] by (auto simp: two_letters)
  show "\<not> truthy (dict_get d (lit ''phone_numbers'')) \<Longrightarrow> \<not> startswith l (lit ''TEL;TYPE=CELL:'')"
    using m falsy_list [OF f(4)] t [OF _ tag_lengths(5)] by (auto simp: two_letters)
  show "\<not> truthy (dict_get d (lit ''email'')) \<Longrightarrow> \<not> startswith l (lit ''EMAIL:'')"
    using m falsy_text [OF f(5)] t [OF _ tag_lengths(6)] by (auto simp: two_letters)
  show "\<not> truthy (dict_get d (lit ''address'')) \<Longrightarrow> \<not> startswith l (lit ''ADR:;;'')"
    using m falsy_text [OF f(6)] t [OF _ tag_lengths(7)] by (auto simp: two_letters)
  show "\<not> truthy (dict_get d (lit ''url'')) \<Longrightarrow> \<not> startswith l (lit ''URL:'')"
    using m falsy_text [OF f(7)] t [OF _ tag_lengths(8)] by (auto simp: two_letters)
qed

lemma field_tags_cases:
  assumes "(k, tags) \<in> set field_tags"
  obtains "k = lit ''name''" "tags = [lit ''N:'', lit ''FN:'']"
    | "k = lit ''titles''" "tags = [lit ''TITLE:'']"
    | "k = lit ''organization''" "tags = [lit ''ORG:'']"
    | "k = lit ''phone_numbers''" "tags = [lit ''TEL;TYPE=CELL:'']"
    | "k = lit ''email''" "tags = [lit ''EMAIL:'']"
    | "k = lit ''address''" "tags = [lit ''ADR:;;'']"
    | "k = lit ''url''" "tags = [lit ''URL:'']"
proof -
  from assms have
    "(k, tags) = (lit ''name'', [lit ''N:'', lit ''FN:'']) \<or>
     (k, tags) = (lit ''titles'', [lit ''TITLE:'']) \<or>
     (k, tags) = (lit ''organization'', [lit ''ORG:'']) \<or>
     (k, tags) = (lit ''phone_numbers'', [lit ''TEL;TYPE=CELL:'']) \<or>
     (k, tags) = (lit ''email'', [lit ''EMAIL:'']) \<or>
     (k, tags) = (lit ''address'', [lit ''ADR:;;'']) \<or>
     (k, tags) = (lit ''url'', [lit ''URL:''])"
    unfolding field_tags_def by (simp only: list.set insert_iff empty_iff simp_thms)
  then show thesis
    by (elim disjE Pair_inject) (rule that, assumption, assumption)+
qed

lemma no_line_for_empty_field:
  assumes rec: "contact_record d"
    and k: "(k, tags) \<in> set field_tags"
    and empty: "\<not> truthy (dict_get d k)"
    and tag: "tag \<in> set tags"
    and l: "l \<in> set (card_lines ext d)"
  shows "\<not> startswith l tag"
proof -
  note e = empty_field_no_line [OF rec l]
  from k show ?thesis
  proof (cases rule: field_tags_cases)
    case 1
    from tag have "tag = lit ''N:'' \<or> tag = lit ''FN:''" unfolding 1 by simp
    moreover from empty have "\<not> truthy (dict_get d (lit ''name''))" unfolding 1 .
    ultimately show ?thesis using e(1) by blast
  next
    case 2
    from tag have "tag = lit ''TITLE:''" unfolding 2 by simp
    moreover from empty have "\<not> truthy (dict_get d (lit ''titles''))" unfolding 2 .
    ultimately show ?thesis using e(2) by blast
  next
    case 3
    from tag have "tag = lit ''ORG:''" unfolding 3 by simp
    moreover from empty have "\<not> truthy (dict_get d (lit ''organization''))" unfolding 3 .
    ultimately show ?thesis using e(3) by blast
  next
    case 4
    from tag have "tag = lit ''TEL;TYPE=CELL:''" unfolding 4 by simp
    moreover from empty have "\<not> truthy (dict_get d (lit ''phone_numbers''))" unfolding 4 .
    ultimately show ?thesis using e(4) by blast
  next
    case 5
    from tag have "tag = lit ''EMAIL:''" unfolding 5 by simp
    moreover from empty have "\<not> truthy (dict_get d (lit ''email''))" unfolding 5 .
    ultimately show ?thesis using e(5) by blast
  next
    case 6
    from tag have "tag = lit ''ADR:;;''" unfolding 6 by simp
    moreover from empty have "\<not> truthy (dict_get d (lit ''address''))" unfolding 6 .
    ultimately show ?thesis using e(6) by blast
  next
    case 7
    from tag have "tag = lit ''URL:''" unfolding 7 by simp
    moreover from empty have "\<not> truthy (dict_get d (lit ''url''))" unfolding 7 .
    ultimately show ?thesis using e(7) by blast
  qed
qed

lemma py_split_single: "c \<notin> set l \<Longrightarrow> py_split [c] l = [l]"
  by (subst py_split.simps) (simp add: find_str_char)

lemma py_split_first:
  assumes "c \<notin> set l"
  shows "py_split [c] (l @ c # rest) = l # py_split [c] rest"
proof -
  from assms have "takeWhile (\<lambda>x. x \<noteq> c) (l @ c # rest) = l"
    by (induction l) auto
  then have "find_str [c] (l @ c # rest) = Some (length l)"
    by (simp add: find_str_char)
  then show ?thesis
    by (subst py_split.simps) simp
qed

lemma py_split_join:
  assumes "ls \<noteq> []" and "\<forall>l \<in> set ls. c \<notin> set l"
  shows "py_split [c] (join [c] ls) = ls"
  using assms
proof (induction "[c]" ls rule: join.induct)
  case 1
  then show ?case by simp
next
  case (2 l)
  then show ?case by (simp add: py_split_single)
next
  case (3 l v va)
  then show ?case by (simp add: py_split_first)
qed

lemma newline_free_lit:
  "newline \<notin> set (lit ''BEGIN:VCARD'')" "newline \<notin> set (lit ''VERSION:3.0'')"
  "newline \<notin> set (lit ''END:VCARD'')" "newline \<notin> set (lit ''N:'')"
  "newline \<notin> set (lit '';'')" "newline \<notin> set (lit '';;;'')" "newline \<notin> set (lit ''FN:'')"
  "newline \<notin> set (lit ''TITLE:'')" "newline \<notin> set (lit ''ORG:'')"
  "newline \<notin> set (lit ''TEL;TYPE=CELL:'')" "newline \<notin> set (lit ''EMAIL:'')"
  "newline \<notin> set (lit ''ADR:;;'')" "newline \<notin> set (lit ''URL:'')"
  by (simp_all add: lit.simps)

lemma name_part_newline_free:
  assumes "newline \<notin> set n" and "l \<in> set (name_part n)"
  shows "newline \<notin> set l"
proof -
  from assms(1) have "newline \<notin> set (takeWhile (\<lambda>c. c \<noteq> 32) n)"
    by (auto dest: set_takeWhileD)
  moreover from assms(1) have "newline \<notin> set (drop 1 (dropWhile (\<lambda>c. c \<noteq> 32) n))"
    by (auto dest!: in_set_dropD set_dropWhileD)
  ultimately show ?thesis
    using assms by (cases "n = []") (auto simp: name_part_def newline_free_lit)
qed

lemma card_lines_newline_free:
  assumes free: "\<forall>v \<in> set (card_values ext d). newline \<notin> set v"
    and l: "l \<in> set (card_lines ext d)"
  shows "newline \<notin> set l"
  using l
proof (cases rule: card_lines_cases)
  case header
  then show ?thesis using newline_free_lit by blast
next
  case name
  from free have "newline \<notin> set (text_of (dict_get d (lit ''name'')))"
    by (simp add: card_values_def)
  then show ?thesis using name by (rule name_part_newline_free)
next
  case (title t)
  with free have "newline \<notin> set t" by (simp add: card_values_def)
  with title show ?thesis by (simp add: newline_free_lit)
next
  case org
  from free have "newline \<notin> set (text_of (dict_get d (lit ''organization'')))"
    by (simp add: card_values_def)
  with tagged_member [OF org] show ?thesis by (simp add: newline_free_lit)
next
  case (tel p)
  with free have "newline \<notin> set (e164 ext (lit ''BD'') p)"
    by (simp add: card_values_def)
  with tel show ?thesis by (simp add: newline_free_lit)
next
  case email
  from free have "newline \<notin> set (text_of (dict_get d (lit ''email'')))"
    by (simp add: card_values_def)
  with tagged_member [OF email] show ?thesis by (simp add: newline_free_lit)
next
  case adr
  from free have "newline \<notin> set (text_of (dict_get d (lit ''address'')))"
    by (simp add: card_values_def)
  with tagged_member [OF adr] show ?thesis by (simp add: newline_free_lit)
next
  case url
  from free have "newline \<notin> set (text_of (dict_get d (lit ''url'')))"
    by (simp add: card_values_def)
  with tagged_member [OF url] show ?thesis by (simp add: newline_free_lit)
qed

lemma card_lines_nonempty: "card_lines ext d \<noteq> []"
  by (simp add: card_lines_def)

text \<open>
  The lines of the output are not always the lines the serializer builds: it writes a
  field's text into the card as it is, so a title that holds a newline breaks into two
  lines of the output.
  The record below has no \<^verbatim>\<open>email\<close> field, and its card has an \<^verbatim>\<open>EMAIL:\<close> line.
\<close>

theorem newline_in_title_adds_line:
  "contact_record [(lit ''titles'', JArr [JStr (lit ''x\<newline>EMAIL:evil@x.y'')])] \<and>
   distinct (map fst [(lit ''titles'', JArr [JStr (lit ''x\<newline>EMAIL:evil@x.y'')])]) \<and>
   map_of [(lit ''titles'', JArr [JStr (lit ''x\<newline>EMAIL:evil@x.y'')])] (lit ''email'') = None \<and>
   create_vcf_content sample_externals
     [(lit ''titles'', JArr [JStr (lit ''x\<newline>EMAIL:evil@x.y'')])] =
     Inr (lit ''BEGIN:VCARD\<newline>VERSION:3.0\<newline>TITLE:x\<newline>EMAIL:evil@x.y\<newline>END:VCARD'') \<and>
   py_split [newline]
     (lit ''BEGIN:VCARD\<newline>VERSION:3.0\<newline>TITLE:x\<newline>EMAIL:evil@x.y\<newline>END:VCARD'') =
     [lit ''BEGIN:VCARD'', lit ''VERSION:3.0'', lit ''TITLE:x'', lit ''EMAIL:evil@x.y'',
      lit ''END:VCARD'']"
proof (intro conjI)
  let ?d = "[(lit ''titles'', JArr [JStr (lit ''x\<newline>EMAIL:evil@x.y'')])]"
  show "contact_record ?d"
    by (simp add: contact_record_def record_shape_def lit.simps)
  show "distinct (map fst ?d)" by simp
  show "map_of ?d (lit ''email'') = None" by (simp add: lit.simps)
  show "create_vcf_content sample_externals ?d =
     Inr (lit ''BEGIN:VCARD\<newline>VERSION:3.0\<newline>TITLE:x\<newline>EMAIL:evil@x.y\<newline>END:VCARD'')"
    by (simp add: create_vcf_content_def vcf_lines_def and_then_def append_name_def dict_get_def
          dict_get_default_def normalize_phone_numbers_def append_field_def fstr_def lit.simps)
  show "py_split [newline]
     (lit ''BEGIN:VCARD\<newline>VERSION:3.0\<newline>TITLE:x\<newline>EMAIL:evil@x.y\<newline>END:VCARD'') =
     [lit ''BEGIN:VCARD'', lit ''VERSION:3.0'', lit ''TITLE:x'', lit ''EMAIL:evil@x.y'',
      lit ''END:VCARD'']"
    by code_simp
qed

text \<open>
  C3, as amended. On every contact record the list of lines the serializer builds is
  \<^const>\<open>card_lines\<close>, in its order: header, N and FN, one TITLE per title in input order,
  ORG, one TEL per surviving phone number, EMAIL, ADR, URL, footer; the output is that
  list joined by newlines, and it is the same for every reordering of the record's
  fields. When no text the record puts on the card holds a newline, the lines of the
  output are exactly that list, and no line of the output carries the tag of a field
  the record lacks.
\<close>

theorem create_vcf_content_fixed_order:
  assumes "contact_record d" and "distinct (map fst d)"
  shows "vcf_lines ext d = Inr (card_lines ext d)
    \<and> create_vcf_content ext d = Inr (join [newline] (card_lines ext d))
    \<and> (\<forall>d'. mset d' = mset d \<longrightarrow> create_vcf_content ext d' = create_vcf_content ext d)
    \<and> ((\<forall>v \<in> set (card_values ext d). newline \<notin> set v) \<longrightarrow>
         py_split [newline] (join [newline] (card_lines ext d)) = card_lines ext d \<and>
         (\<forall>(k, tags) \<in> set field_tags. map_of d k = None \<longrightarrow>
            (\<forall>l \<in> set (py_split [newline] (join [newline] (card_lines ext d))).
               \<forall>tag \<in> set tags. \<not> startswith l tag)))"
proof (intro conjI impI)
  show "vcf_lines ext d = Inr (card_lines ext d)"
    using assms(1) by (rule vcf_lines_card_lines)
  show "create_vcf_content ext d = Inr (join [newline] (card_lines ext d))"
    using assms(1) by (rule create_vcf_content_card_lines)
  show "\<forall>d'. mset d' = mset d \<longrightarrow> create_vcf_content ext d' = create_vcf_content ext d"
    using assms(2)
    by (auto simp: create_vcf_content_def dest!: map_of_reordered vcf_lines_map_of [where ext = ext])
next
  assume free: "\<forall>v \<in> set (card_values ext d). newline \<notin> set v"
  then have "\<forall>l \<in> set (card_lines ext d). newline \<notin> set l"
    using card_lines_newline_free by blast
  with card_lines_nonempty
  show lines: "py_split [newline] (join [newline] (card_lines ext d)) = card_lines ext d"
    by (rule py_split_join)
  have absent: "map_of d k = None \<Longrightarrow> \<not> truthy (dict_get d k)" for k
    by (simp add: dict_get_def)
  show "\<forall>(k, tags) \<in> set field_tags. map_of d k = None \<longrightarrow>
          (\<forall>l \<in> set (py_split [newline] (join [newline] (card_lines ext d))).
             \<forall>tag \<in> set tags. \<not> startswith l tag)"
    unfolding lines
    using no_line_for_empty_field [OF assms(1)] absent by blast
qed

text \<open>
  A record given with its fields out of order, one phone number that does not survive,
  and no organization, e-mail or address.
\<close>

theorem create_vcf_content_fixed_order_witness:
  "create_vcf_content sample_externals
     [(lit ''url'', JStr (lit ''https://x.org'')),
      (lit ''phone_numbers'', JArr [JStr (lit ''01812345678''), JStr (lit ''n/a'')]),
      (lit ''titles'', JArr [JStr (lit ''CTO''), JStr (lit ''Founder'')]),
      (lit ''name'', JStr (lit ''Jane Roe''))]
   = Inr (lit ''BEGIN:VCARD\<newline>VERSION:3.0\<newline>N:Roe;Jane;;;\<newline>FN:Jane Roe\<newline>TITLE:CTO\<newline>TITLE:Founder\<newline>TEL;TYPE=CELL:+8801812345678\<newline>URL:https://x.org\<newline>END:VCARD'')
   \<and> py_split [newline] (lit ''BEGIN:VCARD\<newline>VERSION:3.0\<newline>N:Roe;Jane;;;\<newline>FN:Jane Roe\<newline>TITLE:CTO\<newline>TITLE:Founder\<newline>TEL;TYPE=CELL:+8801812345678\<newline>URL:https://x.org\<newline>END:VCARD'')
   = [lit ''BEGIN:VCARD'', lit ''VERSION:3.0'', lit ''N:Roe;Jane;;;'', lit ''FN:Jane Roe'',
      lit ''TITLE:CTO'', lit ''TITLE:Founder'', lit ''TEL;TYPE=CELL:+8801812345678'',
      lit ''URL:https://x.org'', lit ''END:VCARD'']"
proof -
  let ?d = "[(lit ''url'', JStr (lit ''https://x.org'')),
      (lit ''phone_numbers'', JArr [JStr (lit ''01812345678''), JStr (lit ''n/a'')]),
      (lit ''titles'', JArr [JStr (lit ''CTO''), JStr (lit ''Founder'')]),
      (lit ''name'', JStr (lit ''Jane Roe''))]"
  let ?lines = "[lit ''BEGIN:VCARD'', lit ''VERSION:3.0'', lit ''N:Roe;Jane;;;'', lit ''FN:Jane Roe'',
      lit ''TITLE:CTO'', lit ''TITLE:Founder'', lit ''TEL;TYPE=CELL:+8801812345678'',
      lit ''URL:https://x.org'', lit ''END:VCARD'']"
  have r: "contact_record ?d"
    by (simp add: contact_record_def record_shape_def lit.simps)
  have k: "distinct (map fst ?d)" by (simp add: lit.simps)
  have c: "card_lines sample_externals ?d = ?lines"
    by (simp add: card_lines_def dict_get_def text_of_def strings_of_def name_part_def tagged_def
          survives_def e164_def sample_externals_def sample_parse_def sample_is_valid_number_def
          sample_format_number_def is_digit_def lit.simps)
  have v: "\<forall>v \<in> set (card_values sample_externals ?d). newline \<notin> set v"
    by (simp add: card_values_def dict_get_def text_of_def strings_of_def
          survives_def e164_def sample_externals_def sample_parse_def sample_is_valid_number_def
          sample_format_number_def is_digit_def lit.simps)
  have j: "join [newline] ?lines = lit ''BEGIN:VCARD\<newline>VERSION:3.0\<newline>N:Roe;Jane;;;\<newline>FN:Jane Roe\<newline>TITLE:CTO\<newline>TITLE:Founder\<newline>TEL;TYPE=CELL:+8801812345678\<newline>URL:https://x.org\<newline>END:VCARD''"
    by (simp add: lit.simps)
  note t = create_vcf_content_fixed_order [OF r k, of sample_externals]
  have 1: "create_vcf_content sample_externals ?d =
      Inr (join [newline] (card_lines sample_externals ?d))"
    by (rule t [THEN conjunct2, THEN conjunct1])
  have 2: "py_split [newline] (join [newline] (card_lines sample_externals ?d)) =
      card_lines sample_externals ?d"
    by (rule t [THEN conjunct2, THEN conjunct2, THEN conjunct2, THEN mp, OF v, THEN conjunct1])
  from 1 2 show ?thesis by (simp only: c j simp_thms)
qed






lemma map_of_without_key:
  "map_of (filter (\<lambda>kv. fst kv \<noteq> k) d) k' = (if k' = k then None else map_of d k')"
  by (induction d) auto

lemma empty_value_get:
  assumes "v = JStr [] \<or> v = JArr []"
  shows "append_name lines (dict_get ((k, v) # d) k') =
           append_name lines (dict_get (filter (\<lambda>kv. fst kv \<noteq> k) d) k')"
    and "append_field ext tag lines (dict_get ((k, v) # d) k') =
           append_field ext tag lines (dict_get (filter (\<lambda>kv. fst kv \<noteq> k) d) k')"
    and "iterate (dict_get_default ((k, v) # d) k' (JArr [])) =
           iterate (dict_get_default (filter (\<lambda>kv. fst kv \<noteq> k) d) k' (JArr []))"
  using assms
  by (auto simp: dict_get_def dict_get_default_def map_of_without_key append_name_def
        append_field_def)

lemma empty_value_vcf_lines:
  assumes "v = JStr [] \<or> v = JArr []"
  shows "vcf_lines ext ((k, v) # d) = vcf_lines ext (filter (\<lambda>kv. fst kv \<noteq> k) d)"
  unfolding vcf_lines_def normalize_phone_numbers_def
  by (simp only: empty_value_get [OF assms])

text \<open>
  C9. A field whose value is the empty string or the empty list is serialized like a
  missing field: the output equals that of the record without the field, and on a
  contact record no emitted line carries the field's tag.
\<close>

theorem empty_field_like_absent:
  assumes "map_of d k = Some v" and "v = JStr [] \<or> v = JArr []"
  shows "create_vcf_content ext d = create_vcf_content ext (filter (\<lambda>kv. fst kv \<noteq> k) d)
    \<and> (contact_record d \<longrightarrow>
         (\<exists>lines. vcf_lines ext d = Inr lines \<and>
            (\<forall>(k', tags) \<in> set field_tags. k' = k \<longrightarrow>
               (\<forall>l \<in> set lines. \<forall>tag \<in> set tags. \<not> startswith l tag))))"
proof (intro conjI impI)
  from assms(1) have "map_of ((k, v) # d) = map_of d"
    by (simp add: map_upd_triv)
  then have "vcf_lines ext ((k, v) # d) = vcf_lines ext d"
    by (rule vcf_lines_map_of)
  then show "create_vcf_content ext d = create_vcf_content ext (filter (\<lambda>kv. fst kv \<noteq> k) d)"
    by (simp add: create_vcf_content_def flip: empty_value_vcf_lines [OF assms(2)])
next
  assume rec: "contact_record d"
  from assms have falsy: "\<not> truthy (dict_get d k)"
    by (auto simp: dict_get_def)
  have "\<forall>(k', tags) \<in> set field_tags. k' = k \<longrightarrow>
          (\<forall>l \<in> set (card_lines ext d). \<forall>tag \<in> set tags. \<not> startswith l tag)"
    using no_line_for_empty_field [OF rec _ falsy] by blast
  with vcf_lines_card_lines [OF rec]
  show "\<exists>lines. vcf_lines ext d = Inr lines \<and>
            (\<forall>(k', tags) \<in> set field_tags. k' = k \<longrightarrow>
               (\<forall>l \<in> set lines. \<forall>tag \<in> set tags. \<not> startswith l tag))"
    by blast
qed

theorem empty_field_like_absent_witness:
  "create_vcf_content sample_externals
     [(lit ''name'', JStr []), (lit ''titles'', JArr []), (lit ''email'', JStr (lit ''a@b.c''))] =
   Inr (lit ''BEGIN:VCARD\<newline>VERSION:3.0\<newline>EMAIL:a@b.c\<newline>END:VCARD'')"
proof -
  let ?d = "[(lit ''name'', JStr []), (lit ''titles'', JArr []), (lit ''email'', JStr (lit ''a@b.c''))]"
  let ?e = "[(lit ''titles'', JArr []), (lit ''email'', JStr (lit ''a@b.c''))]"
  have 1: "map_of ?d (lit ''name'') = Some (JStr [])" by simp
  have 2: "JStr [] = JStr [] \<or> JStr [] = JArr []" by simp
  have 3: "filter (\<lambda>kv. fst kv \<noteq> lit ''name'') ?d = ?e" by (simp add: lit.simps)
  have 4: "create_vcf_content sample_externals ?e =
             Inr (lit ''BEGIN:VCARD\<newline>VERSION:3.0\<newline>EMAIL:a@b.c\<newline>END:VCARD'')"
    by (simp add: create_vcf_content_def vcf_lines_def and_then_def append_name_def dict_get_def
          dict_get_default_def normalize_phone_numbers_def append_field_def fstr_def lit.simps)
  have "create_vcf_content sample_externals ?d =
        create_vcf_content sample_externals (filter (\<lambda>kv. fst kv \<noteq> lit ''name'') ?d)"
    using empty_field_like_absent [OF 1 2, of sample_externals] by (rule conjunct1)
  then show ?thesis by (simp only: 3 4)
qed

lemma null_list_raises:
  assumes shape: "record_shape True True d"
    and null: "map_of d (lit ''titles'') = Some JNull \<or> map_of d (lit ''phone_numbers'') = Some JNull"
  shows "vcf_lines ext d = Inl TypeError"
proof -
  from shape have n: "text_shape True (map_of d (lit ''name''))"
    and t: "list_shape True (map_of d (lit ''titles''))"
    and p: "list_shape True (map_of d (lit ''phone_numbers''))"
    by (simp_all add: record_shape_def)
  have name: "append_name lines (dict_get d (lit ''name'')) =
                Inr (lines @ name_part (text_of (dict_get d (lit ''name''))))" for lines
    by (rule append_name_text [OF text_shape_cases [OF n]])
  show ?thesis
  proof (cases "map_of d (lit ''titles'') = Some JNull")
    case True
    then show ?thesis
      by (simp add: vcf_lines_def name and_then_def dict_get_default_def)
  next
    case False
    with null have phones: "map_of d (lit ''phone_numbers'') = Some JNull" by simp
    from t False obtain ts where "iterate (dict_get_default d (lit ''titles'') (JArr [])) = Inr ts"
      by (cases "(True, map_of d (lit ''titles''))" rule: list_shape.cases)
         (auto simp: dict_get_default_def)
    then show ?thesis
      by (simp add: vcf_lines_def name and_then_def dict_get_default_def phones
            normalize_phone_numbers_def Let_def)
  qed
qed

text \<open>
  C10. On every contact record (each text field, when present, a string or null;
  \<^verbatim>\<open>titles\<close> and \<^verbatim>\<open>phone_numbers\<close>, when present, lists of strings) the serializer
  returns a string: every loop runs over a finite list, and no statement raises. The
  two list fields cannot be null: on a record of that shape but with an explicit null for
  \<^verbatim>\<open>titles\<close> or \<^verbatim>\<open>phone_numbers\<close> the iteration raises \<^verbatim>\<open>TypeError\<close>, where a missing
  field is read as the empty list.
\<close>

theorem create_vcf_content_returns:
  "(contact_record d \<longrightarrow> (\<exists>vcf. create_vcf_content ext d = Inr vcf))
   \<and> (record_shape True True d \<and>
        (map_of d (lit ''titles'') = Some JNull \<or> map_of d (lit ''phone_numbers'') = Some JNull) \<longrightarrow>
        create_vcf_content ext d = Inl TypeError)"
  by (simp add: create_vcf_content_card_lines)
     (simp add: create_vcf_content_def null_list_raises and_then_def)

theorem create_vcf_content_returns_witness:
  "(\<exists>vcf. create_vcf_content sample_externals
            [(lit ''name'', JNull), (lit ''titles'', JArr [JStr (lit ''CEO'')]),
             (lit ''email'', JStr (lit ''a@b.c''))] = Inr vcf)
   \<and> create_vcf_content sample_externals
        [(lit ''name'', JStr (lit ''A'')), (lit ''phone_numbers'', JNull)] = Inl TypeError
   \<and> create_vcf_content sample_externals
        [(lit ''name'', JStr (lit ''A'')), (lit ''titles'', JNull)] = Inl TypeError"
proof -
  let ?a = "[(lit ''name'', JNull), (lit ''titles'', JArr [JStr (lit ''CEO'')]),
             (lit ''email'', JStr (lit ''a@b.c''))]"
  let ?b = "[(lit ''name'', JStr (lit ''A'')), (lit ''phone_numbers'', JNull)]"
  let ?c = "[(lit ''name'', JStr (lit ''A'')), (lit ''titles'', JNull)]"
  have 1: "contact_record ?a"
    by (simp add: contact_record_def record_shape_def lit.simps)
  have 2: "record_shape True True ?b \<and>
           (map_of ?b (lit ''titles'') = Some JNull \<or> map_of ?b (lit ''phone_numbers'') = Some JNull)"
    by (simp add: record_shape_def lit.simps)
  have 3: "record_shape True True ?c \<and>
           (map_of ?c (lit ''titles'') = Some JNull \<or> map_of ?c (lit ''phone_numbers'') = Some JNull)"
    by (simp add: record_shape_def lit.simps)
  have "\<exists>vcf. create_vcf_content sample_externals ?a = Inr vcf"
    by (rule create_vcf_content_returns [THEN conjunct1, THEN mp, OF 1])
  moreover have "create_vcf_content sample_externals ?b = Inl TypeError"
    by (rule create_vcf_content_returns [THEN conjunct2, THEN mp, OF 2])
  moreover have "create_vcf_content sample_externals ?c = Inl TypeError"
    by (rule create_vcf_content_returns [THEN conjunct2, THEN mp, OF 3])
  ultimately show ?thesis by (intro conjI)
qed

section \<open>Properties of the vCard endpoint\<close>

lemma sanitized_filename_JStr:
  "sanitized_filename (JStr n) = Inr (map (\<lambda>c. if c = 32 \<or> c = 47 then 95 else c) n)"
  by (simp add: sanitized_filename_def replace_char_def)

lemma latin_1_append: "latin_1 (a @ b) \<longleftrightarrow> latin_1 a \<and> latin_1 b"
  by (simp add: latin_1_def)

lemma latin_1_sanitized:
  "latin_1 (map (\<lambda>c. if c = 32 \<or> c = 47 then 95 else c) n) \<longleftrightarrow> latin_1 n"
  by (induction n) (auto simp: latin_1_def)

lemma latin_1_disposition:
  "latin_1 (lit ''attachment; filename='' @ map (\<lambda>c. if c = 32 \<or> c = 47 then 95 else c) n @ lit ''.vcf'')
     \<longleftrightarrow> latin_1 n"
proof -
  have "latin_1 (lit ''attachment; filename='')" "latin_1 (lit ''.vcf'')"
    by (simp_all add: latin_1_def lit.simps)
  then show ?thesis by (simp add: latin_1_append latin_1_sanitized)
qed

lemma latin_1_header_names:
  "latin_1 (lit ''Content-Disposition'')"
  by (simp add: latin_1_def lit.simps)

lemma named_record:
  assumes rec: "contact_record d" and name: "text_of (dict_get d (lit ''name'')) \<noteq> []"
  shows "truthy (dict_get d (lit ''name''))"
    and "dict_get_default d (lit ''name'') (JStr (lit ''contact'')) =
           JStr (text_of (dict_get d (lit ''name'')))"
proof -
  from text_shape_cases [OF contact_record_fields(1) [OF rec]] name
  obtain s where s: "dict_get d (lit ''name'') = JStr s" "s \<noteq> []"
    by (auto simp: text_of_def)
  then show "truthy (dict_get d (lit ''name''))" by simp
  from s(1) have "map_of d (lit ''name'') = Some (JStr s)"
    by (simp add: dict_get_def split: option.splits)
  with s(1) show "dict_get_default d (lit ''name'') (JStr (lit ''contact'')) =
           JStr (text_of (dict_get d (lit ''name'')))"
    by (simp add: dict_get_default_def text_of_def)
qed

lemma unnamed_record:
  assumes rec: "contact_record d" and name: "text_of (dict_get d (lit ''name'')) = []"
  shows "\<not> truthy (dict_get d (lit ''name''))"
  using text_shape_cases [OF contact_record_fields(1) [OF rec]] name
  by (auto simp: text_of_def)

lemma generate_vcf_contact_record:
  assumes rec: "contact_record d"
  shows "generate_vcf ext (Inr (JObj d)) =
     (let name = text_of (dict_get d (lit ''name'')); vcf = join [newline] (card_lines ext d)
      in if name = []
         then \<lparr>status_code = 400, media_type = lit ''application/json'', headers = [],
               content = Json_error (lit ''Name is required to generate vCard'')\<rparr>
         else if latin_1 name \<and> utf_8 vcf
         then \<lparr>status_code = 200, media_type = lit ''text/vcard'',
               headers = [(lit ''Content-Disposition'',
                 lit ''attachment; filename='' @
                 map (\<lambda>c. if c = 32 \<or> c = 47 then 95 else c) name @ lit ''.vcf'')],
               content = Vcard vcf\<rparr>
         else \<lparr>status_code = 500, media_type = lit ''application/json'', headers = [],
               content = Json_exception UnicodeEncodeError\<rparr>)"
proof (cases "text_of (dict_get d (lit ''name'')) = []")
  case True
  with unnamed_record [OF rec True] show ?thesis
    by (simp add: generate_vcf_def generate_vcf_body_def Response_def)
next
  case False
  note n = named_record [OF rec False]
  from False show ?thesis
    by (simp add: generate_vcf_def generate_vcf_body_def Response_def n and_then_def Let_def
          create_vcf_content_card_lines [OF rec] sanitized_filename_JStr latin_1_disposition
          latin_1_header_names)
qed

lemma do_POST_generate_vcf_contact_record:
  assumes rec: "contact_record d"
  shows "do_POST_generate_vcf ext (Inr (JObj d)) =
     (let name = text_of (dict_get d (lit ''name'')); vcf = join [newline] (card_lines ext d);
          failed = Send_response 500 # send_headers json_headers @
                   [End_headers, Write (Json_exception UnicodeEncodeError)];
          ok = Send_response 200 # send_headers
                 [(lit ''Content-type'', lit ''text/vcard''),
                  (lit ''Access-Control-Allow-Origin'', lit ''*'')];
          disposition = [Send_header (lit ''Content-Disposition'')
                 (lit ''attachment; filename='' @
                  map (\<lambda>c. if c = 32 \<or> c = 47 then 95 else c) name @ lit ''.vcf''),
               End_headers]
      in if name = []
         then Send_response 400 # send_headers json_headers @
              [End_headers, Write (Json_error (lit ''Name is required to generate vCard''))]
         else if \<not> latin_1 name then ok @ failed
         else if \<not> utf_8 vcf then ok @ disposition @ failed
         else ok @ disposition @ [Write (Vcard vcf)])"
proof (cases "text_of (dict_get d (lit ''name'')) = []")
  case True
  with unnamed_record [OF rec True] show ?thesis
    by (simp add: do_POST_generate_vcf_def do_POST_generate_vcf_body_def)
next
  case False
  note n = named_record [OF rec False]
  from False show ?thesis
    by (simp add: do_POST_generate_vcf_def do_POST_generate_vcf_body_def n Let_def
          create_vcf_content_card_lines [OF rec] sanitized_filename_JStr latin_1_disposition)
qed

text \<open>
  A name need not be empty for the endpoint to answer without the card. The record
  \<^verbatim>\<open>{"name": "\u09b0\u09b9\u09bf\u09ae"}\<close>, a name of four letters in Bengali script, has a
  name, and the answer is the error object of the \<^verbatim>\<open>except\<close> block: the file name built
  from the name cannot be encoded into the \<^verbatim>\<open>Content-Disposition\<close> header.
\<close>

theorem name_beyond_latin_1_no_card:
  "truthy (dict_get [(lit ''name'', JStr [2480, 2489, 2495, 2478])] (lit ''name''))
   \<and> generate_vcf sample_externals (Inr (JObj [(lit ''name'', JStr [2480, 2489, 2495, 2478])])) =
     \<lparr>status_code = 500, media_type = lit ''application/json'', headers = [],
      content = Json_exception UnicodeEncodeError\<rparr>
   \<and> last (do_POST_generate_vcf sample_externals
             (Inr (JObj [(lit ''name'', JStr [2480, 2489, 2495, 2478])]))) =
     Write (Json_exception UnicodeEncodeError)"
proof -
  let ?b = "[(lit ''name'', JStr [2480, 2489, 2495, 2478])]"
  have b: "contact_record ?b"
    by (simp add: contact_record_def record_shape_def lit.simps)
  have nb: "text_of (dict_get ?b (lit ''name'')) = [2480, 2489, 2495, 2478]"
    by (simp add: text_of_def dict_get_def)
  have t: "truthy (dict_get ?b (lit ''name''))"
    by (simp add: dict_get_def)
  have g: "generate_vcf sample_externals (Inr (JObj ?b)) =
     \<lparr>status_code = 500, media_type = lit ''application/json'', headers = [],
      content = Json_exception UnicodeEncodeError\<rparr>"
    unfolding generate_vcf_contact_record [OF b] by (simp add: Let_def nb latin_1_def)
  have p: "last (do_POST_generate_vcf sample_externals (Inr (JObj ?b))) =
     Write (Json_exception UnicodeEncodeError)"
    unfolding do_POST_generate_vcf_contact_record [OF b]
    by (simp add: Let_def nb latin_1_def send_headers_def json_headers_def)
  from t g p show ?thesis by (simp only: simp_thms)
qed

text \<open>
  C7, as amended. For a request that carries a contact record, both variants of the vCard
  endpoint answer with status 400 and \<^verbatim>\<open>{"error": "Name is required to generate vCard"}\<close> exactly
  when the record's name is missing or empty. For a name whose characters all lie in
  Latin-1 (and a card without surrogate code points) they answer with status 200, the
  serialized card, and the header \<^verbatim>\<open>Content-Disposition: attachment; filename=NAME.vcf\<close>,
  where NAME is the name with every space and every forward slash replaced by an
  underscore. For a name with a character beyond U+00FF the header cannot be encoded:
  \<^verbatim>\<open>generate_vcf\<close> of \<^verbatim>\<open>backend/app.py\<close> answers with status 500 and the exception's
  text, and \<^verbatim>\<open>do_POST\<close> of \<^verbatim>\<open>api/generate-vcf.py\<close>, which has already called
  \<^verbatim>\<open>send_response(200)\<close>, calls \<^verbatim>\<open>send_response(500)\<close> and writes the exception's text;
  neither returns the card.
\<close>

theorem generate_vcf_name_required:
  assumes "contact_record d"
  shows
   "(let name = text_of (dict_get d (lit ''name''));
         vcf = join [newline] (card_lines ext d);
         filename = map (\<lambda>c. if c = 32 \<or> c = 47 then 95 else c) name;
         r = generate_vcf ext (Inr (JObj d));
         sent = do_POST_generate_vcf ext (Inr (JObj d))
     in (status_code r = 400 \<longleftrightarrow> name = [])
      \<and> (Send_response 400 \<in> set sent \<longleftrightarrow> name = [])
      \<and> (name = [] \<longrightarrow>
            r = \<lparr>status_code = 400, media_type = lit ''application/json'', headers = [],
                 content = Json_error (lit ''Name is required to generate vCard'')\<rparr> \<and>
            sent = [Send_response 400,
                    Send_header (lit ''Content-type'') (lit ''application/json''),
                    Send_header (lit ''Access-Control-Allow-Origin'') (lit ''*''),
                    End_headers,
                    Write (Json_error (lit ''Name is required to generate vCard''))])
      \<and> (name \<noteq> [] \<and> latin_1 name \<and> utf_8 vcf \<longrightarrow>
            r = \<lparr>status_code = 200, media_type = lit ''text/vcard'',
                 headers = [(lit ''Content-Disposition'',
                             lit ''attachment; filename='' @ filename @ lit ''.vcf'')],
                 content = Vcard vcf\<rparr> \<and>
            sent = [Send_response 200,
                    Send_header (lit ''Content-type'') (lit ''text/vcard''),
                    Send_header (lit ''Access-Control-Allow-Origin'') (lit ''*''),
                    Send_header (lit ''Content-Disposition'')
                      (lit ''attachment; filename='' @ filename @ lit ''.vcf''),
                    End_headers,
                    Write (Vcard vcf)])
      \<and> (name \<noteq> [] \<and> \<not> latin_1 name \<longrightarrow>
            r = \<lparr>status_code = 500, media_type = lit ''application/json'', headers = [],
                 content = Json_exception UnicodeEncodeError\<rparr> \<and>
            sent = [Send_response 200,
                    Send_header (lit ''Content-type'') (lit ''text/vcard''),
                    Send_header (lit ''Access-Control-Allow-Origin'') (lit ''*''),
                    Send_response 500,
                    Send_header (lit ''Content-type'') (lit ''application/json''),
                    Send_header (lit ''Access-Control-Allow-Origin'') (lit ''*''),
                    End_headers,
                    Write (Json_exception UnicodeEncodeError)]))"
  unfolding generate_vcf_contact_record [OF assms] do_POST_generate_vcf_contact_record [OF assms]
  by (simp add: Let_def send_headers_def json_headers_def)

text \<open>
  The end-to-end example of the specification, Jane Roe with a national phone number,
  and a record whose name is written in Bengali script.
\<close>

theorem generate_vcf_name_required_witness:
  "generate_vcf sample_externals
     (Inr (JObj [(lit ''name'', JStr (lit ''Jane Roe'')),
                 (lit ''phone_numbers'', JArr [JStr (lit ''01812345678'')])])) =
     \<lparr>status_code = 200, media_type = lit ''text/vcard'',
      headers = [(lit ''Content-Disposition'', lit ''attachment; filename=Jane_Roe.vcf'')],
      content = Vcard (lit ''BEGIN:VCARD\<newline>VERSION:3.0\<newline>N:Roe;Jane;;;\<newline>FN:Jane Roe\<newline>TEL;TYPE=CELL:+8801812345678\<newline>END:VCARD'')\<rparr>
   \<and> generate_vcf sample_externals (Inr (JObj [(lit ''name'', JStr [2480, 2489, 2495, 2478])])) =
     \<lparr>status_code = 500, media_type = lit ''application/json'', headers = [],
      content = Json_exception UnicodeEncodeError\<rparr>
   \<and> do_POST_generate_vcf sample_externals
       (Inr (JObj [(lit ''name'', JStr [2480, 2489, 2495, 2478])])) =
     [Send_response 200,
      Send_header (lit ''Content-type'') (lit ''text/vcard''),
      Send_header (lit ''Access-Control-Allow-Origin'') (lit ''*''),
      Send_response 500,
      Send_header (lit ''Content-type'') (lit ''application/json''),
      Send_header (lit ''Access-Control-Allow-Origin'') (lit ''*''),
      End_headers,
      Write (Json_exception UnicodeEncodeError)]"
proof -
  let ?d = "[(lit ''name'', JStr (lit ''Jane Roe'')),
             (lit ''phone_numbers'', JArr [JStr (lit ''01812345678'')])]"
  let ?b = "[(lit ''name'', JStr [2480, 2489, 2495, 2478])]"
  have d: "contact_record ?d"
    by (simp add: contact_record_def record_shape_def lit.simps)
  have b: "contact_record ?b"
    by (simp add: contact_record_def record_shape_def lit.simps)
  have nd: "text_of (dict_get ?d (lit ''name'')) = lit ''Jane Roe''"
    by (simp add: text_of_def dict_get_def)
  have nb: "text_of (dict_get ?b (lit ''name'')) = [2480, 2489, 2495, 2478]"
    by (simp add: text_of_def dict_get_def)
  have cd: "join [newline] (card_lines sample_externals ?d) =
    lit ''BEGIN:VCARD\<newline>VERSION:3.0\<newline>N:Roe;Jane;;;\<newline>FN:Jane Roe\<newline>TEL;TYPE=CELL:+8801812345678\<newline>END:VCARD''"
    by (simp add: card_lines_def dict_get_def text_of_def strings_of_def name_part_def tagged_def
          survives_def e164_def sample_externals_def sample_parse_def sample_is_valid_number_def
          sample_format_number_def is_digit_def lit.simps)
  have ok: "lit ''Jane Roe'' \<noteq> [] \<and> latin_1 (lit ''Jane Roe'') \<and>
      utf_8 (lit ''BEGIN:VCARD\<newline>VERSION:3.0\<newline>N:Roe;Jane;;;\<newline>FN:Jane Roe\<newline>TEL;TYPE=CELL:+8801812345678\<newline>END:VCARD'')"
    by (simp add: latin_1_def utf_8_def lit.simps)
  have wide: "[2480, 2489, 2495, 2478] \<noteq> [] \<and> \<not> latin_1 [2480, 2489, 2495, 2478]"
    by (simp add: latin_1_def)
  have fn: "lit ''attachment; filename='' @
            map (\<lambda>c. if c = 32 \<or> c = 47 then 95 else c) (lit ''Jane Roe'') @ lit ''.vcf'' =
            lit ''attachment; filename=Jane_Roe.vcf''"
    by (simp add: lit.simps)
  note td = generate_vcf_name_required [OF d, of sample_externals, unfolded Let_def nd cd]
  note tb = generate_vcf_name_required [OF b, of sample_externals, unfolded Let_def nb]
  have 1: "generate_vcf sample_externals (Inr (JObj ?d)) =
     \<lparr>status_code = 200, media_type = lit ''text/vcard'',
      headers = [(lit ''Content-Disposition'', lit ''attachment; filename='' @
            map (\<lambda>c. if c = 32 \<or> c = 47 then 95 else c) (lit ''Jane Roe'') @ lit ''.vcf'')],
      content = Vcard (lit ''BEGIN:VCARD\<newline>VERSION:3.0\<newline>N:Roe;Jane;;;\<newline>FN:Jane Roe\<newline>TEL;TYPE=CELL:+8801812345678\<newline>END:VCARD'')\<rparr>"
    by (rule td [THEN conjunct2, THEN conjunct2, THEN conjunct2, THEN conjunct1, THEN mp, OF ok,
          THEN conjunct1])
  have 2: "generate_vcf sample_externals (Inr (JObj ?b)) =
     \<lparr>status_code = 500, media_type = lit ''application/json'', headers = [],
      content = Json_exception UnicodeEncodeError\<rparr> \<and>
     do_POST_generate_vcf sample_externals (Inr (JObj ?b)) =
     [Send_response 200,
      Send_header (lit ''Content-type'') (lit ''text/vcard''),
      Send_header (lit ''Access-Control-Allow-Origin'') (lit ''*''),
      Send_response 500,
      Send_header (lit ''Content-type'') (lit ''application/json''),
      Send_header (lit ''Access-Control-Allow-Origin'') (lit ''*''),
      End_headers,
      Write (Json_exception UnicodeEncodeError)]"
    by (rule tb [THEN conjunct2, THEN conjunct2, THEN conjunct2, THEN conjunct2, THEN mp, OF wide])
  from 1 2 show ?thesis by (simp only: fn simp_thms)
qed

section \<open>Properties of the upload endpoint\<close>

subsection \<open>Trimming and lower-casing\<close>

lemma strip_begins:
  assumes "\<not> isspace a" and "\<not> isspace c"
  shows "(\<exists>rest. strip s = a # b # c # rest) \<longleftrightarrow>
         (\<exists>pre rest. s = pre @ a # b # c # rest \<and> (\<forall>x \<in> set pre. isspace x))"
proof
  assume "\<exists>rest. strip s = a # b # c # rest"
  then obtain rest where rest: "strip s = a # b # c # rest" by blast
  let ?t = "dropWhile isspace s"
  have "rev ?t = takeWhile isspace (rev ?t) @ dropWhile isspace (rev ?t)" by simp
  then have "?t = rev (dropWhile isspace (rev ?t)) @ rev (takeWhile isspace (rev ?t))"
    by (metis rev_append rev_rev_ident)
  with rest have "?t = a # b # c # rest @ rev (takeWhile isspace (rev ?t))"
    by (simp add: strip_def)
  then have "s = takeWhile isspace s @ a # b # c # (rest @ rev (takeWhile isspace (rev ?t)))"
    by (metis takeWhile_dropWhile_id)
  moreover have "\<forall>x \<in> set (takeWhile isspace s). isspace x"
    by (auto dest: set_takeWhileD)
  ultimately show "\<exists>pre rest. s = pre @ a # b # c # rest \<and> (\<forall>x \<in> set pre. isspace x)"
    by blast
next
  assume "\<exists>pre rest. s = pre @ a # b # c # rest \<and> (\<forall>x \<in> set pre. isspace x)"
  then obtain pre rest where s: "s = pre @ a # b # c # rest" and pre: "\<forall>x \<in> set pre. isspace x"
    by blast
  from pre assms(1) have t: "dropWhile isspace s = a # b # c # rest"
    unfolding s by (simp add: dropWhile_append)
  have "\<exists>z. dropWhile isspace (rev rest @ [c, b, a]) = z @ [c, b, a]"
  proof (cases "\<forall>x \<in> set (rev rest). isspace x")
    case True
    with assms(2) have "dropWhile isspace (rev rest @ [c, b, a]) = [] @ [c, b, a]"
      by (simp add: dropWhile_append)
    then show ?thesis by blast
  next
    case False
    then have "dropWhile isspace (rev rest @ [c, b, a]) = dropWhile isspace (rev rest) @ [c, b, a]"
      by (simp add: dropWhile_append)
    then show ?thesis by blast
  qed
  then obtain z where "dropWhile isspace (rev rest @ [c, b, a]) = z @ [c, b, a]" by blast
  then have "strip s = a # b # c # rev z"
    by (simp add: strip_def t)
  then show "\<exists>rest. strip s = a # b # c # rest" by blast
qed

lemma lower_at_letter:
  assumes wide: "\<forall>s i. 128 \<le> s ! i \<longrightarrow>
                   unicode_lower ext s i \<noteq> [] \<and> hd (unicode_lower ext s i) \<notin> {121, 101, 115}"
    and x: "x \<in> {121, 101, 115}"
  shows "lower_at ext t i \<noteq> []"
    and "hd (lower_at ext t i) = x \<longleftrightarrow> t ! i = x \<or> t ! i = x - 32"
    and "hd (lower_at ext t i) = x \<Longrightarrow> lower_at ext t i = [x]"
proof -
  consider (upper) "65 \<le> t ! i" "t ! i \<le> 90"
    | (ascii) "\<not> (65 \<le> t ! i \<and> t ! i \<le> 90)" "t ! i < 128"
    | (beyond) "128 \<le> t ! i"
    by linarith
  then have "lower_at ext t i \<noteq> [] \<and>
             (hd (lower_at ext t i) = x \<longleftrightarrow> t ! i = x \<or> t ! i = x - 32) \<and>
             (hd (lower_at ext t i) = x \<longrightarrow> lower_at ext t i = [x])"
  proof cases
    case upper
    then have "lower_at ext t i = [t ! i + 32]" by (simp add: lower_at_def)
    with upper x show ?thesis by auto
  next
    case ascii
    then have "lower_at ext t i = [t ! i]" by (auto simp: lower_at_def Let_def)
    with ascii x show ?thesis by auto
  next
    case beyond
    then have "lower_at ext t i = unicode_lower ext t i" by (simp add: lower_at_def)
    with wide beyond x show ?thesis by auto
  qed
  then show "lower_at ext t i \<noteq> []"
    and "hd (lower_at ext t i) = x \<longleftrightarrow> t ! i = x \<or> t ! i = x - 32"
    and "hd (lower_at ext t i) = x \<Longrightarrow> lower_at ext t i = [x]"
    by blast+
qed

lemma startswith_hd:
  "u \<noteq> [] \<Longrightarrow> startswith (u @ v) (x # p) \<Longrightarrow> hd u = x"
  by (cases u) simp_all

lemma upt_three: "3 \<le> n \<Longrightarrow> [0..<n] = 0 # 1 # 2 # [3..<n]"
proof -
  assume "3 \<le> n"
  then obtain k where n: "n = 3 + k" using le_Suc_ex by blast
  have "[0..<3 + k] = [0..<3] @ [3..<3 + k]" by (rule upt_add_eq_append) simp
  moreover have "[0..<3] = [0, 1, 2]" by (simp add: upt_rec)
  ultimately show ?thesis unfolding n by simp
qed

lemma lower_yes:
  assumes wide: "\<forall>s i. 128 \<le> s ! i \<longrightarrow>
                   unicode_lower ext s i \<noteq> [] \<and> hd (unicode_lower ext s i) \<notin> {121, 101, 115}"
  shows "startswith (lower ext t) [121, 101, 115] \<longleftrightarrow>
     (\<exists>a b c rest. t = a # b # c # rest \<and> (a = 121 \<or> a = 89) \<and> (b = 101 \<or> b = 69) \<and>
        (c = 115 \<or> c = 83))"
proof -
  note l = lower_at_letter [OF wide]
  have one: "startswith (lower_at ext t i @ v) (x # p) \<longleftrightarrow>
             (t ! i = x \<or> t ! i = x - 32) \<and> startswith v p"
    if "x \<in> {121, 101, 115}" for i v x p
  proof
    assume s: "startswith (lower_at ext t i @ v) (x # p)"
    from startswith_hd [OF l(1) [OF that] s] have h: "hd (lower_at ext t i) = x" .
    with l(3) [OF that] have e: "lower_at ext t i = [x]" by simp
    from h l(2) [OF that, of t i] have "t ! i = x \<or> t ! i = x - 32" by blast
    moreover from s have "startswith v p" unfolding e by simp
    ultimately show "(t ! i = x \<or> t ! i = x - 32) \<and> startswith v p" by blast
  next
    assume a: "(t ! i = x \<or> t ! i = x - 32) \<and> startswith v p"
    with l(2) [OF that, of t i] have "hd (lower_at ext t i) = x" by blast
    with l(3) [OF that] have e: "lower_at ext t i = [x]" by simp
    from a show "startswith (lower_at ext t i @ v) (x # p)" unfolding e by simp
  qed
  note one' = one [where v = "[]", simplified]
  show ?thesis
  proof (cases t)
    case Nil
    then show ?thesis by (simp add: lower_def)
  next
    case t1: (Cons a t')
    show ?thesis
    proof (cases t')
      case Nil
      with t1 have t: "t = [a]" by simp
      then have "lower ext t = lower_at ext t 0" by (simp add: lower_def)
      then have "\<not> startswith (lower ext t) [121, 101, 115]" by (simp add: one')
      then show ?thesis by (simp add: t)
    next
      case t2: (Cons b t'')
      show ?thesis
      proof (cases t'')
        case Nil
        with t1 t2 have t: "t = [a, b]" by simp
        then have "[0..<length t] = [0, 1]" by (simp add: upt_conv_Cons)
        then have "lower ext t = lower_at ext t 0 @ lower_at ext t 1"
          by (simp add: lower_def)
        then have "\<not> startswith (lower ext t) [121, 101, 115]" by (simp add: one one')
        then show ?thesis by (simp add: t)
      next
        case (Cons c rest)
        with t1 t2 have t: "t = a # b # c # rest" by simp
        then have "3 \<le> length t" by simp
        then have "[0..<length t] = 0 # 1 # 2 # [3..<length t]" by (rule upt_three)
        then have "lower ext t = lower_at ext t 0 @ lower_at ext t 1 @ lower_at ext t 2 @
                     concat (map (lower_at ext t) [3..<length t])"
          by (simp add: lower_def)
        then have "startswith (lower ext t) [121, 101, 115] \<longleftrightarrow>
                   (t ! 0 = 121 \<or> t ! 0 = 89) \<and> (t ! 1 = 101 \<or> t ! 1 = 69) \<and>
                   (t ! 2 = 115 \<or> t ! 2 = 83)"
          by (simp add: one)
        then show ?thesis by (simp add: t)
      qed
    qed
  qed
qed

subsection \<open>Classification\<close>

lemma lit_yes: "lit ''yes'' = [121, 101, 115]"
  by (simp add: lit.simps)

lemma letters:
  "[a] = lit ''y'' \<longleftrightarrow> a = 121" "[a] = lit ''Y'' \<longleftrightarrow> a = 89"
  "[a] = lit ''e'' \<longleftrightarrow> a = 101" "[a] = lit ''E'' \<longleftrightarrow> a = 69"
  "[a] = lit ''s'' \<longleftrightarrow> a = 115" "[a] = lit ''S'' \<longleftrightarrow> a = 83"
  by (simp_all add: lit.simps)

lemma letters_not_space:
  "\<not> isspace 121" "\<not> isspace 89" "\<not> isspace 115" "\<not> isspace 83"
  by (simp_all add: isspace_def whitespace_def)

lemma is_card_yes:
  assumes wide: "\<forall>s i. 128 \<le> s ! i \<longrightarrow>
                   unicode_lower ext s i \<noteq> [] \<and> hd (unicode_lower ext s i) \<notin> {121, 101, 115}"
  shows "startswith (is_card ext answer) (lit ''yes'') \<longleftrightarrow>
     (\<exists>pre a b c rest. answer = pre @ a # b # c # rest \<and> (\<forall>x \<in> set pre. x \<in> set whitespace) \<and>
        ([a] = lit ''y'' \<or> [a] = lit ''Y'') \<and> ([b] = lit ''e'' \<or> [b] = lit ''E'') \<and>
        ([c] = lit ''s'' \<or> [c] = lit ''S''))"
    (is "?l \<longleftrightarrow> ?r")
proof
  assume ?l
  then obtain a b c rest where s: "strip answer = a # b # c # rest"
    and a: "a = 121 \<or> a = 89" and b: "b = 101 \<or> b = 69" and c: "c = 115 \<or> c = 83"
    unfolding is_card_def lit_yes lower_yes [OF wide] by blast
  from a c have "\<not> isspace a" "\<not> isspace c" using letters_not_space by blast+
  from strip_begins [OF this, of answer b] s
  obtain pre rest' where "answer = pre @ a # b # c # rest'" "\<forall>x \<in> set pre. isspace x" by blast
  with a b c show ?r unfolding letters isspace_def by blast
next
  assume ?r
  then obtain pre a b c rest where s: "answer = pre @ a # b # c # rest"
    and pre: "\<forall>x \<in> set pre. isspace x"
    and a: "a = 121 \<or> a = 89" and b: "b = 101 \<or> b = 69" and c: "c = 115 \<or> c = 83"
    unfolding letters isspace_def by blast
  from a c have "\<not> isspace a" "\<not> isspace c" using letters_not_space by blast+
  from strip_begins [OF this, of answer b] s pre
  obtain rest' where "strip answer = a # b # c # rest'" by blast
  with a b c show ?l unfolding is_card_def lit_yes lower_yes [OF wide] by blast
qed

lemma upload_image_answered:
  assumes "content_type file = Some ct" and "startswith ct (lit ''image/'')"
    and "encode_image file = Inr img"
    and "chat_completions_create ext Classification img = Inr (Some answer)"
  shows "upload_image ext file calls =
     (if startswith (is_card ext answer) (lit ''yes'')
      then (case extract_business_card_info ext img (calls @ [Classification]) of
              (Inl e, calls') \<Rightarrow> (Error_processing_image e, calls')
            | (Inr data, calls') \<Rightarrow> (Data data, calls'))
      else (Not_a_business_card, calls @ [Classification]))"
  using assms
  by (simp add: upload_image_def upload_image_body_def Let_def split: prod.splits sum.splits)

lemma do_POST_upload_answered:
  assumes "image_data req = Some bytes" and "bytes \<noteq> []" and "image_opens req"
    and "encode_image_data req = Inr img"
    and "chat_completions_create ext Classification img = Inr (Some answer)"
  shows "do_POST_upload ext req calls =
     (if startswith (is_card ext answer) (lit ''yes'')
      then (case extract_business_card_info_api ext img (calls @ [Classification]) of
              (Inl e, calls') \<Rightarrow> (Error_extracting e, calls')
            | (Inr data, calls') \<Rightarrow> (Data data, calls'))
      else (Not_a_business_card, calls @ [Classification]))"
  using assms
  by (simp add: do_POST_upload_def classify_block_def Let_def split: prod.splits sum.splits)

lemma extraction_calls:
  "snd (extract_business_card_info ext img calls) = calls @ [Extraction]"
  "snd (extract_business_card_info_api ext img calls) = calls @ [Extraction]"
  by (auto simp: extract_business_card_info_def extract_business_card_info_api_def
        extraction_body_def Let_def split: sum.splits option.splits exn.splits)

text \<open>
  C8. The classifier's answer counts as yes exactly when it consists of any number of
  whitespace characters followed by the letters y, e, s, each in either case, followed by
  anything. On an answer that counts as yes both upload handlers go on to the extraction
  call; on any other answer both reply with the not-a-business-card error object and make
  no extraction call. The one thing assumed of \<^verbatim>\<open>str.lower\<close> beyond ASCII is that no
  character beyond ASCII has a lower-case text that is empty or begins with y, e or s.
\<close>

theorem classification_answer:
  assumes "\<forall>s i. 128 \<le> s ! i \<longrightarrow>
             unicode_lower ext s i \<noteq> [] \<and> hd (unicode_lower ext s i) \<notin> {121, 101, 115}"
  shows "(startswith (is_card ext answer) (lit ''yes'') \<longleftrightarrow>
      (\<exists>pre a b c rest. answer = pre @ a # b # c # rest \<and> (\<forall>x \<in> set pre. x \<in> set whitespace) \<and>
         ([a] = lit ''y'' \<or> [a] = lit ''Y'') \<and> ([b] = lit ''e'' \<or> [b] = lit ''E'') \<and>
         ([c] = lit ''s'' \<or> [c] = lit ''S'')))
   \<and> (content_type file = Some ct \<and> startswith ct (lit ''image/'') \<and> encode_image file = Inr img \<and>
        chat_completions_create ext Classification img = Inr (Some answer) \<longrightarrow>
        (if startswith (is_card ext answer) (lit ''yes'')
         then snd (upload_image ext file calls) = calls @ [Classification, Extraction]
         else upload_image ext file calls = (Not_a_business_card, calls @ [Classification])))
   \<and> (image_data req = Some bytes \<and> bytes \<noteq> [] \<and> image_opens req \<and>
        encode_image_data req = Inr img \<and>
        chat_completions_create ext Classification img = Inr (Some answer) \<longrightarrow>
        (if startswith (is_card ext answer) (lit ''yes'')
         then snd (do_POST_upload ext req calls) = calls @ [Classification, Extraction]
         else do_POST_upload ext req calls = (Not_a_business_card, calls @ [Classification])))"
proof (intro conjI impI)
  show "startswith (is_card ext answer) (lit ''yes'') \<longleftrightarrow>
      (\<exists>pre a b c rest. answer = pre @ a # b # c # rest \<and> (\<forall>x \<in> set pre. x \<in> set whitespace) \<and>
         ([a] = lit ''y'' \<or> [a] = lit ''Y'') \<and> ([b] = lit ''e'' \<or> [b] = lit ''E'') \<and>
         ([c] = lit ''s'' \<or> [c] = lit ''S''))"
    by (rule is_card_yes [OF assms])
next
  assume a: "content_type file = Some ct \<and> startswith ct (lit ''image/'') \<and>
        encode_image file = Inr img \<and>
        chat_completions_create ext Classification img = Inr (Some answer)"
  have "snd (case extract_business_card_info ext img (calls @ [Classification]) of
              (Inl e, calls') \<Rightarrow> (Error_processing_image e, calls')
            | (Inr data, calls') \<Rightarrow> (Data data, calls')) =
        snd (extract_business_card_info ext img (calls @ [Classification]))"
    by (simp split: prod.splits sum.splits)
  with a show "if startswith (is_card ext answer) (lit ''yes'')
         then snd (upload_image ext file calls) = calls @ [Classification, Extraction]
         else upload_image ext file calls = (Not_a_business_card, calls @ [Classification])"
    by (simp add: upload_image_answered extraction_calls)
next
  assume a: "image_data req = Some bytes \<and> bytes \<noteq> [] \<and> image_opens req \<and>
        encode_image_data req = Inr img \<and>
        chat_completions_create ext Classification img = Inr (Some answer)"
  have "snd (case extract_business_card_info_api ext img (calls @ [Classification]) of
              (Inl e, calls') \<Rightarrow> (Error_extracting e, calls')
            | (Inr data, calls') \<Rightarrow> (Data data, calls')) =
        snd (extract_business_card_info_api ext img (calls @ [Classification]))"
    by (simp split: prod.splits sum.splits)
  with a show "if startswith (is_card ext answer) (lit ''yes'')
         then snd (do_POST_upload ext req calls) = calls @ [Classification, Extraction]
         else do_POST_upload ext req calls = (Not_a_business_card, calls @ [Classification])"
    by (simp add: do_POST_upload_answered extraction_calls)
qed

theorem classification_answer_witness:
  \<open>startswith (is_card (answering (newline # lit '' Yes, clearly a card '') (lit ''{"name":"A"}''))
       (newline # lit '' Yes, clearly a card '')) (lit ''yes'')
   \<and> snd (upload_image (answering (newline # lit '' Yes, clearly a card '') (lit ''{"name":"A"}''))
          sample_file []) = [Classification, Extraction]
   \<and> snd (do_POST_upload (answering (newline # lit '' Yes, clearly a card '') (lit ''{"name":"A"}''))
          sample_request []) = [Classification, Extraction]
   \<and> upload_image (answering (lit ''maybe'') (lit ''{"name":"A"}'')) sample_file [] =
       (Not_a_business_card, [Classification])
   \<and> do_POST_upload (answering (lit ''maybe'') (lit ''{"name":"A"}'')) sample_request [] =
       (Not_a_business_card, [Classification])\<close>
proof -
  define yes where "yes = newline # lit '' Yes, clearly a card ''"
  define raw where \<open>raw = lit ''{"name":"A"}''\<close>
  define img where "img = lit ''aGVsbG8=''"
  have wide: "\<forall>s i. 128 \<le> s ! i \<longrightarrow> unicode_lower (answering answer raw) s i \<noteq> [] \<and>
                hd (unicode_lower (answering answer raw) s i) \<notin> {121, 101, 115}" for answer
    by (simp add: answering_def sample_externals_def)
  have fl: "content_type sample_file = Some (lit ''image/png'') \<and>
              startswith (lit ''image/png'') (lit ''image/'') \<and>
              encode_image sample_file = Inr img \<and>
              chat_completions_create (answering answer raw) Classification img = Inr (Some answer)"
    for answer
    by (simp add: sample_file_def answering_def img_def lit.simps)
  have rq: "image_data sample_request = Some (lit ''PNG'') \<and> lit ''PNG'' \<noteq> [] \<and>
             image_opens sample_request \<and> encode_image_data sample_request = Inr img \<and>
             chat_completions_create (answering answer raw) Classification img = Inr (Some answer)"
    for answer
    by (simp add: sample_request_def answering_def img_def lit.simps)
  note t = classification_answer [of "answering yes raw" yes sample_file "lit ''image/png''" img
      "[]" sample_request "lit ''PNG''", OF wide]
  note u = classification_answer [of "answering (lit ''maybe'') raw" "lit ''maybe''" sample_file
      "lit ''image/png''" img "[]" sample_request "lit ''PNG''", OF wide]
  have "\<exists>pre a b c rest. yes = pre @ a # b # c # rest \<and> (\<forall>x \<in> set pre. x \<in> set whitespace) \<and>
         ([a] = lit ''y'' \<or> [a] = lit ''Y'') \<and> ([b] = lit ''e'' \<or> [b] = lit ''E'') \<and>
         ([c] = lit ''s'' \<or> [c] = lit ''S'')"
    by (rule exI [where x = "[newline, 32]"], rule exI [where x = 89],
        rule exI [where x = 101], rule exI [where x = 115],
        rule exI [where x = "lit '', clearly a card ''"])
       (simp add: yes_def lit.simps whitespace_def)
  then have y: "startswith (is_card (answering yes raw) yes) (lit ''yes'')"
    by (rule t [THEN conjunct1, THEN iffD2])
  have n: "\<not> startswith (is_card (answering (lit ''maybe'') raw) (lit ''maybe'')) (lit ''yes'')"
    by (simp add: is_card_def lower_def lower_at_def strip_def isspace_def whitespace_def lit.simps)
  from t [THEN conjunct2, THEN conjunct1, THEN mp, OF fl] y
  have 1: "snd (upload_image (answering yes raw) sample_file []) = [] @ [Classification, Extraction]"
    by (simp only: if_True)
  from t [THEN conjunct2, THEN conjunct2, THEN mp, OF rq] y
  have 2: "snd (do_POST_upload (answering yes raw) sample_request []) =
           [] @ [Classification, Extraction]"
    by (simp only: if_True)
  from u [THEN conjunct2, THEN conjunct1, THEN mp, OF fl] n
  have 3: "upload_image (answering (lit ''maybe'') raw) sample_file [] =
           (Not_a_business_card, [] @ [Classification])"
    by (simp only: if_False)
  from u [THEN conjunct2, THEN conjunct2, THEN mp, OF rq] n
  have 4: "do_POST_upload (answering (lit ''maybe'') raw) sample_request [] =
           (Not_a_business_card, [] @ [Classification])"
    by (simp only: if_False)
  from y 1 2 3 4 show ?thesis
    unfolding yes_def raw_def by (simp only: append_Nil simp_thms)
qed

subsection \<open>A classification call that raises\<close>

lemma do_POST_upload_classification_raises:
  assumes "image_data req = Some bytes" and "bytes \<noteq> []" and "image_opens req"
    and "encode_image_data req = Inr img"
    and "chat_completions_create ext Classification img = Inl e"
  shows "do_POST_upload ext req calls =
     (case extract_business_card_info_api ext img (calls @ [Classification]) of
        (Inl e', calls') \<Rightarrow> (Error_extracting e', calls')
      | (Inr data, calls') \<Rightarrow> (Data data, calls'))"
  using assms
  by (simp add: do_POST_upload_def classify_block_def Let_def split: prod.splits sum.splits)

text \<open>
  C2. When the classification call raises, \<^verbatim>\<open>upload_image\<close> of \<^verbatim>\<open>backend/app.py\<close> has
  no handler around the call: the exception reaches the outer \<^verbatim>\<open>except\<close>, the reply is
  the error object around its text, and no extraction call is made. \<^verbatim>\<open>do_POST\<close> of
  \<^verbatim>\<open>api/upload.py\<close> catches it and goes on to the extraction call, whose result it
  replies with.
\<close>

theorem classification_failure:
  "(content_type file = Some ct \<and> startswith ct (lit ''image/'') \<and> encode_image file = Inr img \<and>
    chat_completions_create ext Classification img = Inl e \<longrightarrow>
      upload_image ext file calls = (Error_processing_image e, calls @ [Classification]))
   \<and> (image_data req = Some bytes \<and> bytes \<noteq> [] \<and> image_opens req \<and>
      encode_image_data req = Inr img \<and>
      chat_completions_create ext Classification img = Inl e \<longrightarrow>
      snd (do_POST_upload ext req calls) = calls @ [Classification, Extraction] \<and>
      fst (do_POST_upload ext req calls) =
        (case fst (extract_business_card_info_api ext img (calls @ [Classification])) of
           Inl e' \<Rightarrow> Error_extracting e' | Inr data \<Rightarrow> Data data))"
proof (intro conjI impI)
  assume "content_type file = Some ct \<and> startswith ct (lit ''image/'') \<and>
    encode_image file = Inr img \<and> chat_completions_create ext Classification img = Inl e"
  then show "upload_image ext file calls = (Error_processing_image e, calls @ [Classification])"
    by (simp add: upload_image_def upload_image_body_def Let_def)
next
  assume a: "image_data req = Some bytes \<and> bytes \<noteq> [] \<and> image_opens req \<and>
      encode_image_data req = Inr img \<and>
      chat_completions_create ext Classification img = Inl e"
  then have d: "do_POST_upload ext req calls =
     (case extract_business_card_info_api ext img (calls @ [Classification]) of
        (Inl e', calls') \<Rightarrow> (Error_extracting e', calls')
      | (Inr data, calls') \<Rightarrow> (Data data, calls'))"
    by (simp add: do_POST_upload_classification_raises)
  have "snd (do_POST_upload ext req calls) =
        snd (extract_business_card_info_api ext img (calls @ [Classification]))"
    unfolding d by (simp split: prod.splits sum.splits)
  then show "snd (do_POST_upload ext req calls) = calls @ [Classification, Extraction]"
    by (simp add: extraction_calls)
  show "fst (do_POST_upload ext req calls) =
        (case fst (extract_business_card_info_api ext img (calls @ [Classification])) of
           Inl e' \<Rightarrow> Error_extracting e' | Inr data \<Rightarrow> Data data)"
    unfolding d by (simp split: prod.splits sum.splits)
qed

theorem classification_failure_witness:
  \<open>upload_image (failing_classification (External (lit ''timeout'')) (lit ''{"name":"A"}''))
     sample_file [] =
     (Error_processing_image (External (lit ''timeout'')), [Classification])
   \<and> do_POST_upload (failing_classification (External (lit ''timeout'')) (lit ''{"name":"A"}''))
       sample_request [] =
     (Data (JObj [(lit ''name'', JStr (lit ''A''))]), [Classification, Extraction])\<close>
proof -
  define raw where \<open>raw = lit ''{"name":"A"}''\<close>
  define img where "img = lit ''aGVsbG8=''"
  define e where "e = External (lit ''timeout'')"
  have 1: "content_type sample_file = Some (lit ''image/png'') \<and>
           startswith (lit ''image/png'') (lit ''image/'') \<and>
           encode_image sample_file = Inr img \<and>
           chat_completions_create (failing_classification e raw) Classification img = Inl e"
    by (simp add: sample_file_def failing_classification_def img_def lit.simps)
  have 2: "image_data sample_request = Some (lit ''PNG'') \<and> lit ''PNG'' \<noteq> [] \<and>
           image_opens sample_request \<and> encode_image_data sample_request = Inr img \<and>
           chat_completions_create (failing_classification e raw) Classification img = Inl e"
    by (simp add: sample_request_def failing_classification_def img_def lit.simps)
  have u: "unwrap_content raw = raw"
    by (simp add: raw_def unwrap_content_def strip_def isspace_def whitespace_def lit.simps)
  have 3: \<open>extract_business_card_info_api (failing_classification e raw) img ([] @ [Classification]) =
           (Inr (JObj [(lit ''name'', JStr (lit ''A''))]), [Classification, Extraction])\<close>
    by (simp add: extract_business_card_info_api_def extraction_body_def failing_classification_def
          sample_externals_def u) (simp add: raw_def sample_json_loads_def)
  note t = classification_failure [of sample_file "lit ''image/png''" img
      "failing_classification e raw" e "[]" sample_request "lit ''PNG''"]
  from t [THEN conjunct1, THEN mp, OF 1]
  have a: "upload_image (failing_classification e raw) sample_file [] =
           (Error_processing_image e, [] @ [Classification])" .
  from t [THEN conjunct2, THEN mp, OF 2]
  have "snd (do_POST_upload (failing_classification e raw) sample_request []) =
          [] @ [Classification, Extraction] \<and>
        fst (do_POST_upload (failing_classification e raw) sample_request []) =
          (case fst (extract_business_card_info_api (failing_classification e raw) img
                       ([] @ [Classification])) of
             Inl e' \<Rightarrow> Error_extracting e' | Inr data \<Rightarrow> Data data)" .
  then have b: "do_POST_upload (failing_classification e raw) sample_request [] =
                (Data (JObj [(lit ''name'', JStr (lit ''A''))]), [Classification, Extraction])"
    unfolding 3 by (simp add: prod_eq_iff)
  from a b show ?thesis unfolding raw_def e_def by (simp only: append_Nil simp_thms)
qed

subsection \<open>An extraction answer that is not JSON\<close>

lemma json_rejected:
  assumes "chat_completions_create ext Extraction img = Inr (Some raw)"
    and "json_loads ext (unwrap_content raw) = Inl e"
  shows "extraction_body ext img calls = (Inl e, calls @ [Extraction])"
  using assms by (simp add: extraction_body_def Let_def)

lemma decoder_recursion_error:
  assumes "chat_completions_create ext Extraction img = Inr (Some raw)"
    and "json_loads ext (unwrap_content raw) = Inl RecursionError"
  shows "extract_business_card_info_api ext img calls =
           (Inl (OpenAI_API_error RecursionError), calls @ [Extraction])"
    and "extract_business_card_info ext img calls = (Inl RecursionError, calls @ [Extraction])"
  by (simp_all add: extract_business_card_info_api_def extract_business_card_info_def
        json_rejected [OF assms])

text \<open>
  C1. When the provider's answer to the extraction call, unwrapped, is rejected by the
  JSON decoder with \<^verbatim>\<open>JSONDecodeError\<close>, \<^verbatim>\<open>extract_business_card_info\<close> of
  \<^verbatim>\<open>api/upload.py\<close> returns the placeholder record and its handler replies with it; the
  function of the same name in \<^verbatim>\<open>backend/app.py\<close> raises the decoder's exception, and its
  handler replies with an error object around the exception's text.
\<close>

theorem parse_failure_placeholder:
  assumes "chat_completions_create ext Extraction img = Inr (Some raw)"
    and "json_loads ext (unwrap_content raw) = Inl JSONDecodeError"
  shows "extract_business_card_info_api ext img calls = (Inr placeholder, calls @ [Extraction])
   \<and> extract_business_card_info ext img calls = (Inl JSONDecodeError, calls @ [Extraction])
   \<and> (image_data req = Some bytes \<and> bytes \<noteq> [] \<and> image_opens req \<and>
       encode_image_data req = Inr img \<and>
       chat_completions_create ext Classification img = Inr (Some answer) \<and>
       startswith (is_card ext answer) (lit ''yes'') \<longrightarrow>
         fst (do_POST_upload ext req calls) = Data placeholder)
   \<and> (content_type file = Some ct \<and> startswith ct (lit ''image/'') \<and> encode_image file = Inr img \<and>
       chat_completions_create ext Classification img = Inr (Some answer) \<and>
       startswith (is_card ext answer) (lit ''yes'') \<longrightarrow>
         fst (upload_image ext file calls) = Error_processing_image JSONDecodeError)"
  by (simp add: extract_business_card_info_api_def extract_business_card_info_def
        json_rejected [OF assms] upload_image_answered do_POST_upload_answered)

theorem parse_failure_placeholder_witness:
  "fst (upload_image (answering (lit ''yes'') (lit ''not json'')) sample_file []) =
     Error_processing_image JSONDecodeError
   \<and> fst (do_POST_upload (answering (lit ''yes'') (lit ''not json'')) sample_request []) =
       Data placeholder"
proof -
  define raw where "raw = lit ''not json''"
  define img where "img = lit ''aGVsbG8=''"
  define yes where "yes = lit ''yes''"
  have u: "unwrap_content raw = raw"
    by (simp add: raw_def unwrap_content_def strip_def isspace_def whitespace_def lit.simps)
  have 1: "chat_completions_create (answering yes raw) Extraction img = Inr (Some raw)"
    by (simp add: answering_def)
  have 2: "json_loads (answering yes raw) (unwrap_content raw) = Inl JSONDecodeError"
    unfolding u
    by (simp add: answering_def sample_externals_def sample_json_loads_def raw_def lit.simps)
  have y: "startswith (is_card (answering yes raw) yes) (lit ''yes'')"
    by (simp add: yes_def is_card_def lower_def lower_at_def strip_def isspace_def
          whitespace_def lit.simps)
  have 3: "image_data sample_request = Some (lit ''PNG'') \<and> lit ''PNG'' \<noteq> [] \<and>
           image_opens sample_request \<and> encode_image_data sample_request = Inr img \<and>
           chat_completions_create (answering yes raw) Classification img = Inr (Some yes) \<and>
           startswith (is_card (answering yes raw) yes) (lit ''yes'')"
    using y by (simp add: sample_request_def answering_def img_def lit.simps)
  have 4: "content_type sample_file = Some (lit ''image/png'') \<and>
           startswith (lit ''image/png'') (lit ''image/'') \<and>
           encode_image sample_file = Inr img \<and>
           chat_completions_create (answering yes raw) Classification img = Inr (Some yes) \<and>
           startswith (is_card (answering yes raw) yes) (lit ''yes'')"
    using y by (simp add: sample_file_def answering_def img_def lit.simps)
  note t = parse_failure_placeholder [OF 1 2, of "[]" sample_request "lit ''PNG''" yes
      sample_file "lit ''image/png''"]
  from t [THEN conjunct2, THEN conjunct2, THEN conjunct1, THEN mp, OF 3]
  have a: "fst (do_POST_upload (answering yes raw) sample_request []) = Data placeholder" .
  from t [THEN conjunct2, THEN conjunct2, THEN conjunct2, THEN mp, OF 4]
  have b: "fst (upload_image (answering yes raw) sample_file []) =
           Error_processing_image JSONDecodeError" .
  from a b show ?thesis unfolding raw_def yes_def by (simp only: simp_thms)
qed

subsection \<open>Unwrapping the extraction answer\<close>

lemma lit_json: "lit ''json'' = [106, 115, 111, 110]"
  by (simp add: lit.simps)

lemma startswith_decomp: "startswith s p \<Longrightarrow> s = p @ drop (length p) s"
  unfolding startswith_def by (metis append_take_drop_id)

lemma find_str_Some_decomp:
  "find_str sep s = Some i \<Longrightarrow> s = take i s @ sep @ drop (i + length sep) s"
proof (induction s arbitrary: i)
  case Nil
  then show ?case by (simp split: if_splits)
next
  case (Cons c cs)
  show ?case
  proof (cases "startswith (c # cs) sep")
    case True
    with Cons.prems have "i = 0" by simp
    with startswith_decomp [OF True] show ?thesis by simp
  next
    case False
    with Cons.prems obtain j where j: "find_str sep cs = Some j" "i = Suc j" by auto
    from Cons.IH [OF j(1)] j(2) show ?thesis by simp
  qed
qed

lemma find_str_None:
  assumes "find_str sep s = None"
  shows "s \<noteq> u @ sep @ v"
  using assms
proof (induction s arbitrary: u)
  case Nil
  then show ?case by (auto split: if_splits)
next
  case (Cons c cs)
  from Cons.prems have ns: "\<not> startswith (c # cs) sep" and none: "find_str sep cs = None"
    by (auto split: if_splits)
  show ?case
  proof (cases u)
    case Nil
    with ns show ?thesis by (auto simp: startswith_def)
  next
    case (Cons x u')
    with Cons.IH [OF none, of u'] show ?thesis by auto
  qed
qed

lemma find_str_leftmost:
  "find_str sep s = Some i \<Longrightarrow> s = u @ sep @ v \<Longrightarrow> i \<le> length u"
proof (induction s arbitrary: i u)
  case Nil
  then show ?case by (auto split: if_splits)
next
  case (Cons c cs)
  show ?case
  proof (cases "startswith (c # cs) sep")
    case True
    with Cons.prems(1) have "i = 0" by simp
    then show ?thesis by simp
  next
    case False
    with Cons.prems(1) obtain j where j: "find_str sep cs = Some j" "i = Suc j" by auto
    from False Cons.prems(2) obtain u' where u': "u = c # u'" "cs = u' @ sep @ v"
      by (cases u) (auto simp: startswith_def)
    from Cons.IH [OF j(1) u'(2)] j(2) u'(1) show ?thesis by simp
  qed
qed

lemma contains_iff: "contains sep s \<longleftrightarrow> (\<exists>u v. s = u @ sep @ v)"
proof
  assume "contains sep s"
  then obtain i where "find_str sep s = Some i" by (auto simp: contains_def)
  from find_str_Some_decomp [OF this] show "\<exists>u v. s = u @ sep @ v" by blast
next
  assume "\<exists>u v. s = u @ sep @ v"
  then show "contains sep s"
    unfolding contains_def using find_str_None by blast
qed

lemma py_split_nonempty: "py_split sep s \<noteq> []"
  by (subst py_split.simps) (simp split: option.split)

lemma py_split_absent: "\<not> contains sep s \<Longrightarrow> py_split sep s = [s]"
  by (subst py_split.simps) (simp add: contains_def)

lemma json_no_overlap:
  fixes u v a b :: str
  assumes t: "u @ [106, 115, 111, 110] @ v = a @ [106, 115, 111, 110] @ b"
    and lt: "length u < length a"
  shows "length u + 4 \<le> length a"
proof (rule ccontr)
  assume "\<not> length u + 4 \<le> length a"
  with lt consider "length a = length u + 1" | "length a = length u + 2" | "length a = length u + 3"
    by arith
  moreover have j: "(a @ [106, 115, 111, 110] @ b) ! length a = (106 :: nat)"
    by (simp add: nth_append)
  moreover have "(u @ [106, 115, 111, 110] @ v) ! (length u + 1) = (115 :: nat)"
    "(u @ [106, 115, 111, 110] @ v) ! (length u + 2) = (111 :: nat)"
    "(u @ [106, 115, 111, 110] @ v) ! (length u + 3) = (110 :: nat)"
    by (simp_all add: nth_append numeral_2_eq_2 numeral_3_eq_3)
  ultimately show False
    unfolding t by cases simp_all
qed

lemma last_py_split_json:
  assumes "\<not> contains (lit ''json'') b"
  shows "last (py_split (lit ''json'') (a @ lit ''json'' @ b)) = b"
proof (induction "length a" arbitrary: a rule: less_induct)
  case less
  define j where "j = lit ''json''"
  have lj: "length j = 4" and j4: "j = [106, 115, 111, 110]" by (simp_all add: j_def lit_json)
  define t where "t = a @ j @ b"
  have "contains j t" by (auto simp: contains_iff t_def)
  then obtain i where i: "find_str j t = Some i" by (auto simp: contains_def)
  from find_str_leftmost [OF i] have le: "i \<le> length a" by (simp add: t_def)
  have "j \<noteq> []" by (simp add: j4)
  then have split: "py_split j t = take i t # py_split j (drop (i + 4) t)"
    by (subst py_split.simps) (simp only: i option.case lj, simp)
  have lst: "last (py_split j t) = last (py_split j (drop (i + 4) t))"
    unfolding split by (simp add: py_split_nonempty)
  have "last (py_split j t) = b"
  proof (cases "i = length a")
    case True
    then have "drop (i + 4) t = b" by (simp add: t_def lj)
    with lst assms show ?thesis by (simp add: py_split_absent j_def)
  next
    case False
    with le have lt: "i < length a" by simp
    note e = find_str_Some_decomp [OF i, unfolded lj, symmetric]
    have "take i t @ j @ drop (i + 4) t = a @ j @ b" by (rule trans [OF e t_def])
    moreover from lt have "length (take i t) = i" by (simp add: t_def)
    ultimately have "i + 4 \<le> length a"
      using json_no_overlap [of "take i t" "drop (i + 4) t" a b] lt by (simp add: j4)
    then have "drop (i + 4) t = drop (i + 4) a @ j @ b" by (simp add: t_def)
    moreover from lt have "length (drop (i + 4) a) < length a" by simp
    ultimately show ?thesis using lst less.hyps by (simp add: j_def)
  qed
  then show ?case by (simp add: j_def t_def)
qed

lemma strip_unchanged:
  assumes "s \<noteq> []" and "\<not> isspace (hd s)" and "\<not> isspace (last s)"
  shows "strip s = s"
proof -
  from assms(1,2) have "dropWhile isspace s = s" by (simp add: dropWhile_eq_self_iff)
  moreover from assms(1,3) have "dropWhile isspace (rev s) = rev s"
    by (simp add: dropWhile_eq_self_iff hd_rev)
  ultimately show ?thesis by (simp add: strip_def)
qed

lemma strip_leading: "isspace c \<Longrightarrow> strip (c # s) = strip s"
  by (simp add: strip_def)

lemma strip_trailing:
  assumes "isspace c"
  shows "strip (s @ [c]) = strip s"
proof (cases "\<forall>x \<in> set s. isspace x")
  case True
  then have a: "dropWhile isspace s = []" by (simp add: dropWhile_eq_Nil_conv)
  from True assms have b: "dropWhile isspace (s @ [c]) = []"
    by (simp add: dropWhile_eq_Nil_conv)
  show ?thesis unfolding strip_def a b by (rule refl)
next
  case False
  then obtain x where "x \<in> set s" "\<not> isspace x" by blast
  then have "dropWhile isspace (s @ [c]) = dropWhile isspace s @ [c]"
    by (rule dropWhile_append1)
  with assms show ?thesis by (simp add: strip_def)
qed

lemma isspace_newline: "isspace newline"
  by (simp add: isspace_def whitespace_def)

lemma not_isspace_backtick: "\<not> isspace backtick"
  by (simp add: isspace_def whitespace_def)

lemma contains_json_between_newlines:
  assumes "contains (lit ''json'') (newline # s @ [newline])"
  shows "contains (lit ''json'') s"
proof -
  from assms obtain u v where uv: "newline # s @ [newline] = u @ [106, 115, 111, 110] @ v"
    by (auto simp: contains_iff lit_json)
  then obtain u' where u': "u = newline # u'" "s @ [newline] = u' @ [106, 115, 111, 110] @ v"
    by (cases u) auto
  from u'(2) obtain v' where "v = v' @ [newline]"
    by (cases v rule: rev_cases) auto
  with u'(2) have "s = u' @ lit ''json'' @ v'" by (simp add: lit_json)
  then show ?thesis unfolding contains_iff by blast
qed

lemma strip_chars_backticks:
  fixes t :: str
  defines "u \<equiv> strip_chars t [backtick]"
  shows "\<exists>m n. t = replicate m backtick @ u @ replicate n backtick"
    and "u = [] \<or> hd u \<noteq> backtick \<and> last u \<noteq> backtick"
proof -
  define P where "P = (\<lambda>c :: nat. c \<in> set [backtick])"
  define d where "d = dropWhile P t"
  have u: "u = rev (dropWhile P (rev d))" by (simp add: u_def strip_chars_def P_def d_def)
  have ticks: "xs = replicate (length xs) backtick" if "\<forall>x \<in> set xs. P x" for xs
    using that by (induction xs) (simp_all add: P_def)
  have "rev d = takeWhile P (rev d) @ dropWhile P (rev d)" by simp
  then have "rev (rev d) = rev (takeWhile P (rev d) @ dropWhile P (rev d))" by simp
  then have d: "d = u @ rev (takeWhile P (rev d))" unfolding u by (simp only: rev_rev_ident rev_append)
  have "t = takeWhile P t @ d" by (simp add: d_def)
  then have t: "t = takeWhile P t @ u @ rev (takeWhile P (rev d))" using d by simp
  have "\<forall>x \<in> set (takeWhile P t). P x" by (auto dest: set_takeWhileD)
  from ticks [OF this] obtain m where m: "takeWhile P t = replicate m backtick" by blast
  have "\<forall>x \<in> set (rev (takeWhile P (rev d))). P x" by (auto dest: set_takeWhileD)
  from ticks [OF this] obtain n where n: "rev (takeWhile P (rev d)) = replicate n backtick" by blast
  from t have "t = replicate m backtick @ u @ replicate n backtick" by (simp only: m n)
  then show "\<exists>m n. t = replicate m backtick @ u @ replicate n backtick" by blast
  show "u = [] \<or> hd u \<noteq> backtick \<and> last u \<noteq> backtick"
  proof (cases "u = []")
    case True
    then show ?thesis by simp
  next
    case False
    then have r: "dropWhile P (rev d) \<noteq> []" by (simp add: u)
    from hd_dropWhile [OF r] have "\<not> P (last u)" by (simp add: u last_rev r)
    moreover have "\<not> P (hd u)"
    proof -
      from False obtain x u' where "u = x # u'" by (cases u) auto
      with d have "d \<noteq> []" and "hd d = hd u" by (cases d, simp, simp)+
      with hd_dropWhile [of P t] show ?thesis by (simp add: d_def)
    qed
    ultimately show ?thesis by (simp add: P_def)
  qed
qed

lemma filter_backticks:
  assumes "backtick \<notin> set (strip_chars t [backtick])"
  shows "filter (\<lambda>c. c \<noteq> backtick) t = strip_chars t [backtick]"
proof -
  from strip_chars_backticks(1) [of t] obtain m n
    where t: "t = replicate m backtick @ strip_chars t [backtick] @ replicate n backtick" by blast
  have "filter (\<lambda>c. c \<noteq> backtick) (replicate m backtick @ u @ replicate n backtick) = u"
    if "backtick \<notin> set u" for u :: str and m n
    using that by (auto simp: filter_id_conv)
  from this [OF assms, of m n] t show ?thesis by simp
qed

lemma unwrap_content_fence:
  assumes f: "startswith (strip raw) [backtick, backtick, backtick]"
  shows "unwrap_content raw =
           strip (last (py_split (lit ''json'') (strip_chars (strip raw) [backtick])))"
  using f by (simp add: unwrap_content_def Let_def)

lemma spec_unwrap_fence:
  assumes f: "startswith (strip raw) [backtick, backtick, backtick]"
    and "backtick \<notin> set (strip_chars (strip raw) [backtick])"
  shows "unwrap_content raw = spec_unwrap raw"
proof -
  define u where "u = strip_chars (strip raw) [backtick]"
  from assms(2) have "filter (\<lambda>c. c \<noteq> backtick) (strip raw) = u"
    unfolding u_def by (rule filter_backticks)
  with f have s: "spec_unwrap raw =
      (if contains (lit ''json'') u then strip (last (py_split (lit ''json'') u)) else strip u)"
    by (simp add: spec_unwrap_def Let_def)
  show ?thesis
    unfolding unwrap_content_fence [OF f] s u_def [symmetric]
    by (simp add: py_split_absent)
qed

lemma strip_fenced: "strip (fenced s) = fenced s"
  by (rule strip_unchanged) (simp_all add: fenced_def not_isspace_backtick)

lemma strip_chars_fenced: "strip_chars (fenced s) [backtick] = lit ''json'' @ newline # s @ [newline]"
  by (simp add: strip_chars_def fenced_def lit_json)

lemma startswith_fenced: "startswith (fenced s) [backtick, backtick, backtick]"
  by (simp add: fenced_def)

lemma unwrap_content_fenced:
  assumes "\<not> contains (lit ''json'') s"
  shows "unwrap_content (fenced s) = strip s"
proof -
  have f: "startswith (strip (fenced s)) [backtick, backtick, backtick]"
    unfolding strip_fenced by (rule startswith_fenced)
  from assms have "\<not> contains (lit ''json'') (newline # s @ [newline])"
    using contains_json_between_newlines by blast
  from last_py_split_json [OF this, of "[]"]
  have "last (py_split (lit ''json'') (lit ''json'' @ newline # s @ [newline])) =
        newline # s @ [newline]"
    by simp
  then show ?thesis
    unfolding unwrap_content_fence [OF f] strip_fenced strip_chars_fenced
    by (simp add: strip_leading strip_trailing isspace_newline)
qed

text \<open>
  Two answers of the provider on which the parser does not do what section 4.3 of the
  specification says. In the first the JSON text has a backtick inside a string: the parser removes the backticks at the two ends
  of the answer and leaves that one where it is (which is what keeps the text valid),
  where removing every backtick gives another text. In the second the JSON text holds
  the letters \<^verbatim>\<open>json\<close>: what is kept is what follows them, which is not the JSON text and
  which the decoder rejects.
\<close>

theorem backtick_inside_answer_kept:
  \<open>unwrap_content (fenced (lit ''{"name":"a'' @ [backtick] @ lit ''b"}'')) =
     lit ''{"name":"a'' @ [backtick] @ lit ''b"}''
   \<and> spec_unwrap (fenced (lit ''{"name":"a'' @ [backtick] @ lit ''b"}'')) = lit ''{"name":"ab"}''
   \<and> unwrap_content (fenced (lit ''{"name":"json"}'')) = lit ''"}''
   \<and> unwrap_content (lit ''{"name":"json"}'') = lit ''{"name":"json"}''
   \<and> json_loads sample_externals (lit ''{"name":"json"}'') =
       Inr (JObj [(lit ''name'', JStr (lit ''json''))])
   \<and> json_loads sample_externals (lit ''"}'') = Inl JSONDecodeError\<close>
proof -
  have 1: \<open>unwrap_content (fenced (lit ''{"name":"a'' @ [backtick] @ lit ''b"}'')) =
     lit ''{"name":"a'' @ [backtick] @ lit ''b"}''\<close>
    by (simp add: unwrap_content_def fenced_def strip_def strip_chars_def isspace_def whitespace_def
          py_split.simps lit.simps Let_def)
  have 2: \<open>spec_unwrap (fenced (lit ''{"name":"a'' @ [backtick] @ lit ''b"}'')) =
     lit ''{"name":"ab"}''\<close>
    by (simp add: spec_unwrap_def contains_def fenced_def strip_def isspace_def whitespace_def
          py_split.simps lit.simps Let_def)
  have 3: \<open>unwrap_content (fenced (lit ''{"name":"json"}'')) = lit ''"}''\<close>
    by (simp add: unwrap_content_def fenced_def strip_def strip_chars_def isspace_def whitespace_def
          py_split.simps lit.simps Let_def)
  have 4: \<open>unwrap_content (lit ''{"name":"json"}'') = lit ''{"name":"json"}''\<close>
    by (simp add: unwrap_content_def strip_def isspace_def whitespace_def lit.simps Let_def)
  have 5: \<open>json_loads sample_externals (lit ''{"name":"json"}'') =
       Inr (JObj [(lit ''name'', JStr (lit ''json''))])\<close>
    by (simp add: sample_externals_def sample_json_loads_def lit.simps)
  have 6: \<open>json_loads sample_externals (lit ''"}'') = Inl JSONDecodeError\<close>
    by (simp add: sample_externals_def sample_json_loads_def lit.simps)
  from 1 2 3 4 5 6 show ?thesis by (simp only: simp_thms)
qed

text \<open>
  C5, as amended. An answer that, trimmed, does not begin with three backticks is handed
  to the decoder trimmed. For an answer that does, let \<^verbatim>\<open>u\<close> be what the parser keeps of
  the trimmed answer after \<^verbatim>\<open>strip("`")\<close>. The trimmed answer is \<^verbatim>\<open>u\<close> between two runs
  of backticks, and \<^verbatim>\<open>u\<close> neither begins nor ends with a backtick: the backticks at the
  two ends go and those inside stay. If \<^verbatim>\<open>u\<close> does not contain \<^verbatim>\<open>json\<close> the decoder gets
  \<^verbatim>\<open>u\<close> trimmed; if it does, the decoder gets, trimmed, what follows the last occurrence
  of \<^verbatim>\<open>json\<close> in \<^verbatim>\<open>u\<close>. When \<^verbatim>\<open>u\<close> has no backtick inside, this is the text the
  specification describes (\<^const>\<open>spec_unwrap\<close>). In particular a text that does not
  contain \<^verbatim>\<open>json\<close>, wrapped in triple backticks with a leading \<^verbatim>\<open>json\<close> tag, is handed
  to the decoder as the same text as when it is not wrapped.
\<close>

theorem unwrap_content_code_fence:
  "(\<not> startswith (strip raw) [backtick, backtick, backtick] \<longrightarrow> unwrap_content raw = strip raw)
   \<and> (startswith (strip raw) [backtick, backtick, backtick] \<longrightarrow>
        (let u = strip_chars (strip raw) [backtick]
         in (\<exists>m n. strip raw = replicate m backtick @ u @ replicate n backtick)
          \<and> (u = [] \<or> hd u \<noteq> backtick \<and> last u \<noteq> backtick)
          \<and> (\<not> contains (lit ''json'') u \<longrightarrow> unwrap_content raw = strip u)
          \<and> (\<forall>a b. u = a @ lit ''json'' @ b \<and> \<not> contains (lit ''json'') b \<longrightarrow>
                unwrap_content raw = strip b)
          \<and> (backtick \<notin> set u \<longrightarrow> unwrap_content raw = spec_unwrap raw)))
   \<and> (\<not> contains (lit ''json'') s \<longrightarrow>
        unwrap_content (fenced s) = strip s \<and>
        (\<not> startswith (strip s) [backtick, backtick, backtick] \<longrightarrow>
           unwrap_content (fenced s) = unwrap_content s))"
proof (intro conjI impI)
  assume "\<not> startswith (strip raw) [backtick, backtick, backtick]"
  then show "unwrap_content raw = strip raw" by (simp add: unwrap_content_def Let_def)
next
  assume f: "startswith (strip raw) [backtick, backtick, backtick]"
  define u where "u = strip_chars (strip raw) [backtick]"
  note w = unwrap_content_fence [OF f, folded u_def]
  have 1: "\<exists>m n. strip raw = replicate m backtick @ u @ replicate n backtick"
    unfolding u_def by (rule strip_chars_backticks(1))
  have 2: "u = [] \<or> hd u \<noteq> backtick \<and> last u \<noteq> backtick"
    unfolding u_def by (rule strip_chars_backticks(2))
  have 3: "\<not> contains (lit ''json'') u \<longrightarrow> unwrap_content raw = strip u"
    unfolding w by (simp add: py_split_absent)
  have 4: "\<forall>a b. u = a @ lit ''json'' @ b \<and> \<not> contains (lit ''json'') b \<longrightarrow>
             unwrap_content raw = strip b"
    unfolding w by (auto simp: last_py_split_json)
  have 5: "backtick \<notin> set u \<longrightarrow> unwrap_content raw = spec_unwrap raw"
    unfolding u_def using spec_unwrap_fence [OF f] by blast
  from 1 2 3 4 5
  show "let u = strip_chars (strip raw) [backtick]
         in (\<exists>m n. strip raw = replicate m backtick @ u @ replicate n backtick)
          \<and> (u = [] \<or> hd u \<noteq> backtick \<and> last u \<noteq> backtick)
          \<and> (\<not> contains (lit ''json'') u \<longrightarrow> unwrap_content raw = strip u)
          \<and> (\<forall>a b. u = a @ lit ''json'' @ b \<and> \<not> contains (lit ''json'') b \<longrightarrow>
                unwrap_content raw = strip b)
          \<and> (backtick \<notin> set u \<longrightarrow> unwrap_content raw = spec_unwrap raw)"
    unfolding Let_def u_def by (intro conjI)
next
  assume s: "\<not> contains (lit ''json'') s"
  then show "unwrap_content (fenced s) = strip s" by (rule unwrap_content_fenced)
  assume "\<not> startswith (strip s) [backtick, backtick, backtick]"
  then have "unwrap_content s = strip s" by (simp add: unwrap_content_def Let_def)
  with unwrap_content_fenced [OF s] show "unwrap_content (fenced s) = unwrap_content s" by simp
qed

text \<open>
  The example of the specification, \<^verbatim>\<open>{"name":"A"}\<close> wrapped with a \<^verbatim>\<open>json\<close> tag; the same
  text between fences without a tag; and the text alone with a space on either side.
\<close>

theorem unwrap_content_code_fence_witness:
  \<open>unwrap_content (fenced (lit ''{"name":"A"}'')) = lit ''{"name":"A"}''
   \<and> unwrap_content (fenced (lit ''{"name":"A"}'')) = unwrap_content (lit ''{"name":"A"}'')
   \<and> json_loads sample_externals (unwrap_content (fenced (lit ''{"name":"A"}''))) =
       Inr (JObj [(lit ''name'', JStr (lit ''A''))])
   \<and> unwrap_content ([backtick, backtick, backtick] @ lit ''{"name":"A"}'' @
                      [backtick, backtick, backtick]) = lit ''{"name":"A"}''
   \<and> unwrap_content ([backtick, backtick, backtick] @ lit ''{"name":"A"}'' @
                      [backtick, backtick, backtick]) =
     spec_unwrap ([backtick, backtick, backtick] @ lit ''{"name":"A"}'' @
                  [backtick, backtick, backtick])
   \<and> unwrap_content (lit '' {"name":"A"} '') = lit ''{"name":"A"}''\<close>
proof -
  define x where \<open>x = lit ''{"name":"A"}''\<close>
  define y where "y = [backtick, backtick, backtick] @ x @ [backtick, backtick, backtick]"
  define z where \<open>z = lit '' {"name":"A"} ''\<close>
  have nx: "\<not> contains (lit ''json'') x"
    by (simp add: x_def contains_def lit.simps)
  have sx: "strip x = x"
    by (simp add: x_def strip_def isspace_def whitespace_def lit.simps)
  have fx: "\<not> startswith (strip x) [backtick, backtick, backtick]"
    unfolding sx by (simp add: x_def lit.simps)
  have sy: "strip y = y"
    by (simp add: y_def x_def strip_def isspace_def whitespace_def lit.simps)
  have fy: "startswith (strip y) [backtick, backtick, backtick]"
    unfolding sy by (simp add: y_def)
  have uy: "strip_chars (strip y) [backtick] = x"
    unfolding sy by (simp add: y_def x_def strip_chars_def lit.simps)
  have bx: "backtick \<notin> set x"
    by (simp add: x_def lit.simps)
  have sz: "strip z = x"
    by (simp add: z_def x_def strip_def isspace_def whitespace_def lit.simps)
  have fz: "\<not> startswith (strip z) [backtick, backtick, backtick]"
    unfolding sz by (simp add: x_def lit.simps)
  have sf: "startswith (strip (fenced x)) [backtick, backtick, backtick]"
    unfolding strip_fenced by (rule startswith_fenced)
  have uf: "strip_chars (strip (fenced x)) [backtick] = [] @ lit ''json'' @ (newline # x @ [newline])"
    unfolding strip_fenced strip_chars_fenced by simp
  have nb: "\<not> contains (lit ''json'') (newline # x @ [newline])"
    by (simp add: x_def contains_def lit.simps)
  have sb: "strip (newline # x @ [newline]) = x"
    by (simp add: x_def strip_def isspace_def whitespace_def lit.simps)
  note t = unwrap_content_code_fence [of "fenced x" x]
  note ty = unwrap_content_code_fence [of y x, THEN conjunct2, THEN conjunct1, THEN mp, OF fy,
      unfolded Let_def uy]
  note tz = unwrap_content_code_fence [of z x, THEN conjunct1, THEN mp, OF fz]
  note tf = unwrap_content_code_fence [of "fenced x" x, THEN conjunct2, THEN conjunct1, THEN mp,
      OF sf, unfolded Let_def]
  note tx = t [THEN conjunct2, THEN conjunct2, THEN mp, OF nx]
  have 1: "unwrap_content (fenced x) = x"
    using tx [THEN conjunct1] unfolding sx .
  have 2: "unwrap_content (fenced x) = unwrap_content x"
    by (rule tx [THEN conjunct2, THEN mp, OF fx])
  from tf [THEN conjunct2, THEN conjunct2, THEN conjunct2, THEN conjunct1, THEN spec, THEN spec,
      THEN mp, OF conjI, OF uf nb]
  have 7: "unwrap_content (fenced x) = x" unfolding sb .
  have 3: "json_loads sample_externals (unwrap_content (fenced x)) =
           Inr (JObj [(lit ''name'', JStr (lit ''A''))])"
    unfolding 7 by (simp add: x_def sample_externals_def sample_json_loads_def lit.simps)
  from ty [THEN conjunct2, THEN conjunct2, THEN conjunct1, THEN mp, OF nx]
  have 4: "unwrap_content y = x" unfolding sx .
  from ty [THEN conjunct2, THEN conjunct2, THEN conjunct2, THEN conjunct2, THEN mp, OF bx]
  have 5: "unwrap_content y = spec_unwrap y" .
  from tz have 6: "unwrap_content z = x" unfolding sz .
  from 1 2 3 4 5 6 show ?thesis
    unfolding x_def y_def z_def by (simp only: simp_thms)
qed
end
